theory Spec2Isabelle
  imports Main
begin

section \<open>Compact cell views and the transfer buffer (FLUDS, betapass.cc)\<close>

text \<open>
  A \<open>CompactFaceView\<close> is a pair of a face id and the ordered vertex ids of the face, a
  \<open>CompactCellView\<close> a pair of a global cell id and the face views of the cell. The
  source stores all of them as C++ \<open>int\<close>. They are modelled as mathematical integers:
  the only arithmetic on them is \<open>-x-1\<close> in the encoder and \<open>-x\<close> and \<open>-x-1\<close> in the
  decoder, which stay within \<open>int\<close> for every cell id from 0 up to, but not including, the
  largest \<open>int\<close>. Vectors are lists, \<open>push_back\<close> appends at the end.
\<close>

type_synonym CompactFaceView = "int \<times> int list"
type_synonym CompactCellView = "int \<times> CompactFaceView list"

text \<open>
  An index outside a vector is undefined behaviour in the source, a \<open>resize\<close> to a
  negative count throws, and waiting for a request that no send has started is an error
  of the message-passing library; all three are results of the model.
\<close>

datatype error = OutOfRange | LengthError | InvalidRequest

subsection \<open>SerializeCellInfo\<close>

text \<open>The innermost loop, over the vertices of one face.\<close>

fun push_face_vertices :: "int list \<Rightarrow> int list \<Rightarrow> int list" where
  "push_face_vertices [] face_indices = face_indices"
| "push_face_vertices (vi # face_vertices) face_indices =
     push_face_vertices face_vertices (face_indices @ [vi])"

text \<open>The loop over the faces of one cell: marker, face id, vertices.\<close>

fun push_cell_faces :: "int \<Rightarrow> CompactFaceView list \<Rightarrow> int list \<Rightarrow> int list" where
  "push_cell_faces glob_index [] face_indices = face_indices"
| "push_cell_faces glob_index (fv # cell_face_views) face_indices =
     push_cell_faces glob_index cell_face_views
       (push_face_vertices (snd fv) ((face_indices @ [glob_index]) @ [fst fv]))"

text \<open>The loop over the cells.\<close>

fun push_cells :: "CompactCellView list \<Rightarrow> int list \<Rightarrow> int list" where
  "push_cells [] face_indices = face_indices"
| "push_cells (cv # cell_views) face_indices =
     push_cells cell_views (push_cell_faces (- fst cv - 1) (snd cv) face_indices)"

definition SerializeCellInfo :: "CompactCellView list \<Rightarrow> int list \<Rightarrow> int \<Rightarrow> int list" where
  "SerializeCellInfo cell_views face_indices num_face_dofs =
     push_cells cell_views
       ((face_indices @ [num_face_dofs]) @ [int (length cell_views)])"

subsection \<open>DeSerializeCellInfo\<close>

text \<open>
  \<open>vector::resize\<close> keeps the first \<open>n\<close> elements and fills up with copies of the given
  value; a value-initialised cell or face view has id 0 and no entries.
\<close>

definition empty_cell_view :: CompactCellView where
  "empty_cell_view = (0, [])"

definition empty_face_view :: CompactFaceView where
  "empty_face_view = (0, [])"

definition resize :: "'a list \<Rightarrow> nat \<Rightarrow> 'a \<Rightarrow> 'a list" where
  "resize xs n x = take n xs @ replicate (n - length xs) x"

definition valid_index :: "'a list \<Rightarrow> int \<Rightarrow> bool" where
  "valid_index xs i \<longleftrightarrow> 0 \<le> i \<and> nat i < length xs"

text \<open>The four kinds of write of the decoder, on a vector of cell views.\<close>

definition set_cell_first :: "CompactCellView list \<Rightarrow> nat \<Rightarrow> int \<Rightarrow> CompactCellView list" where
  "set_cell_first cell_views c x = cell_views[c := (x, snd (cell_views ! c))]"

definition push_face :: "CompactCellView list \<Rightarrow> nat \<Rightarrow> CompactCellView list" where
  "push_face cell_views c =
     cell_views[c := (fst (cell_views ! c), snd (cell_views ! c) @ [empty_face_view])]"

definition set_face_first ::
  "CompactCellView list \<Rightarrow> nat \<Rightarrow> nat \<Rightarrow> int \<Rightarrow> CompactCellView list" where
  "set_face_first cell_views c f x =
     cell_views[c := (fst (cell_views ! c),
                      (snd (cell_views ! c))[f := (x, snd (snd (cell_views ! c) ! f))])]"

definition push_vertex ::
  "CompactCellView list \<Rightarrow> nat \<Rightarrow> nat \<Rightarrow> int \<Rightarrow> CompactCellView list" where
  "push_vertex cell_views c f x =
     cell_views[c := (fst (cell_views ! c),
                      (snd (cell_views ! c))
                        [f := (fst (snd (cell_views ! c) ! f),
                               snd (snd (cell_views ! c) ! f) @ [x])])]"

text \<open>
  The branch of a marker that differs from the last one: a cell view is appended, the
  counter \<open>c\<close> (already incremented here) selects the cell that gets the id, a face is
  appended to that cell and face 0 of it gets the face id.
\<close>

definition begin_cell ::
  "CompactCellView list \<Rightarrow> nat \<Rightarrow> int \<Rightarrow> int \<Rightarrow> CompactCellView list" where
  "begin_cell cell_views c entry face_id =
     set_face_first
       (push_face (set_cell_first (cell_views @ [empty_cell_view]) c (- entry - 1)) c)
       c 0 face_id"

text \<open>The branch of a repeated marker: a face is appended to the current cell.\<close>

definition begin_face ::
  "CompactCellView list \<Rightarrow> nat \<Rightarrow> nat \<Rightarrow> int \<Rightarrow> CompactCellView list" where
  "begin_face cell_views c f face_id = set_face_first (push_face cell_views c) c f face_id"

text \<open>
  The \<open>while\<close> loop. \<open>k\<close> only grows from 2, so it is a natural number; \<open>c\<close>, \<open>f\<close> and
  \<open>v\<close> start at \<open>-1\<close> and are integers.
\<close>

function deser_loop ::
  "int list \<Rightarrow> nat \<Rightarrow> int \<Rightarrow> int \<Rightarrow> int \<Rightarrow> int \<Rightarrow> CompactCellView list
     \<Rightarrow> error + CompactCellView list" where
  "deser_loop face_indices k last_cell c f v cell_views =
     (if k < length face_indices then
        (if face_indices ! k < 0 then
           (if - (face_indices ! k) \<noteq> last_cell then
              (if valid_index (cell_views @ [empty_cell_view]) (c + 1)
                  \<and> k + 1 < length face_indices
               then deser_loop face_indices (k + 2) (- (face_indices ! k)) (c + 1) 0 0
                      (begin_cell cell_views (nat (c + 1)) (face_indices ! k)
                         (face_indices ! (k + 1)))
               else Inl OutOfRange)
            else
              (if valid_index cell_views c
                  \<and> valid_index (snd (push_face cell_views (nat c) ! nat c)) (f + 1)
                  \<and> k + 1 < length face_indices
               then deser_loop face_indices (k + 2) last_cell c (f + 1) 0
                      (begin_face cell_views (nat c) (nat (f + 1)) (face_indices ! (k + 1)))
               else Inl OutOfRange))
         else
           (if valid_index cell_views c \<and> valid_index (snd (cell_views ! nat c)) f
            then deser_loop face_indices (k + 1) last_cell c f (v + 1)
                   (push_vertex cell_views (nat c) (nat f) (face_indices ! k))
            else Inl OutOfRange))
      else Inr cell_views)"
  by pat_completeness auto
termination
  by (relation "measure (\<lambda>(face_indices, k, _). length face_indices - k)") auto

declare deser_loop.simps [simp del]

text \<open>
  The function reads entries 0 and 1, resizes the output and runs the loop; its results
  are the output vector and \<open>num_face_dofs\<close>.
\<close>

definition DeSerializeCellInfo ::
  "CompactCellView list \<Rightarrow> int list \<Rightarrow> error + (CompactCellView list \<times> int)" where
  "DeSerializeCellInfo cell_views face_indices =
     (if length face_indices < 2 then Inl OutOfRange
      else if face_indices ! 1 < 0 then Inl LengthError
      else (case deser_loop face_indices 2 (- 1) (- 1) (- 1) (- 1)
                   (resize cell_views (nat (face_indices ! 1)) empty_cell_view) of
              Inl e \<Rightarrow> Inl e
            | Inr cvs \<Rightarrow> Inr (cvs, face_indices ! 0)))"


subsection \<open>The wire format and the views the decoder is specified for\<close>

text \<open>
  The format as the specification words it: a header of two entries, then for every face a
  group of the cell marker \<open>-(global_cell_id)-1\<close>, the face id and the vertex ids.
\<close>

definition wire_face_group :: "int \<Rightarrow> CompactFaceView \<Rightarrow> int list" where
  "wire_face_group marker fv = marker # fst fv # snd fv"

definition wire_cell_groups :: "CompactCellView \<Rightarrow> int list" where
  "wire_cell_groups cv = concat (map (wire_face_group (- fst cv - 1)) (snd cv))"

definition wire_buffer :: "CompactCellView list \<Rightarrow> int \<Rightarrow> int list" where
  "wire_buffer cell_views num_face_dofs =
     [num_face_dofs, int (length cell_views)] @ concat (map wire_cell_groups cell_views)"

text \<open>The face groups of a list of views, one list of entries for each face, cell after cell.\<close>

definition face_groups :: "CompactCellView list \<Rightarrow> int list list" where
  "face_groups cell_views =
     concat (map (\<lambda>cv. map (wire_face_group (- fst cv - 1)) (snd cv)) cell_views)"

text \<open>
  The lists of views on which the sign convention of the format works: non-negative cell
  ids, at least one face per cell, non-negative vertex ids, and no two neighbours in the
  list with the same cell id.
\<close>

definition decodable_views :: "CompactCellView list \<Rightarrow> bool" where
  "decodable_views cell_views \<longleftrightarrow>
     (\<forall>cv\<in>set cell_views. 0 \<le> fst cv \<and> snd cv \<noteq> []
        \<and> (\<forall>fv\<in>set (snd cv). \<forall>x\<in>set (snd fv). 0 \<le> x))
     \<and> distinct_adj (map fst cell_views)"

text \<open>
  The loop of the decoder on the entries that are still to be read, for the proofs: the
  cursor \<open>k\<close> becomes the rest of the buffer and the counter \<open>v\<close>, which nothing reads,
  is left out.
\<close>

fun decode_rest ::
  "int list \<Rightarrow> int \<Rightarrow> int \<Rightarrow> int \<Rightarrow> CompactCellView list
     \<Rightarrow> error + CompactCellView list" where
  "decode_rest [] last_cell c f cell_views = Inr cell_views"
| "decode_rest (entry # rest) last_cell c f cell_views =
     (if entry < 0 then
        (case rest of
           [] \<Rightarrow> Inl OutOfRange
         | face_id # rest' \<Rightarrow>
             if - entry \<noteq> last_cell then
               (if valid_index (cell_views @ [empty_cell_view]) (c + 1)
                then decode_rest rest' (- entry) (c + 1) 0
                       (begin_cell cell_views (nat (c + 1)) entry face_id)
                else Inl OutOfRange)
             else
               (if valid_index cell_views c
                   \<and> valid_index (snd (push_face cell_views (nat c) ! nat c)) (f + 1)
                then decode_rest rest' last_cell c (f + 1)
                       (begin_face cell_views (nat c) (nat (f + 1)) face_id)
                else Inl OutOfRange))
      else
        (if valid_index cell_views c \<and> valid_index (snd (cell_views ! nat c)) f
         then decode_rest rest last_cell c f
                (push_vertex cell_views (nat c) (nat f) entry)
         else Inl OutOfRange))"

section \<open>Receiving and sending predecessor data (FLUDS, betapass.cc)\<close>

text \<open>
  The parts of the sweep-plane data structure and of the FLUDS object that
  \<open>InitializeBetaElements\<close> reads and writes. \<open>spls_item_id\<close> is \<open>spls->item_id\<close>; the other
  members of the FLUDS object are the extension of the record.
\<close>

record SPDS =
  location_dependencies :: "int list"
  location_successors :: "int list"
  delayed_location_dependencies :: "int list"
  delayed_location_successors :: "int list"
  spls_item_id :: "int list"

record FLUDS =
  deplocI_cell_views :: "CompactCellView list list"
  deplocI_face_dof_count :: "int list"
  prelocI_cell_views :: "CompactCellView list list"
  prelocI_face_dof_count :: "int list"
  delayed_prelocI_cell_views :: "CompactCellView list list"
  delayed_prelocI_face_dof_count :: "int list"

text \<open>
  What the function does to the outside is the sequence of its calls of the
  message-passing library: \<open>MPI_Isend\<close> with destination, tag and the slot of its request,
  \<open>MPI_Probe\<close> with source and tag, \<open>MPI_Recv\<close> with source, tag and the number of entries
  received, \<open>MPI_Wait\<close> with the slot of the request. The two kinds of release of storage
  (\<open>clear\<close> followed by \<open>shrink_to_fit\<close>) are recorded in the same sequence:
  \<open>ReleaseViews\<close> for \<open>deplocI_cell_views[deplocI]\<close>, \<open>ReleaseSendBuffers\<close> for
  \<open>multi_face_indices\<close>.
\<close>

datatype event =
    MPI_Isend int int nat
  | MPI_Probe int int
  | MPI_Recv int int nat
  | MPI_Wait nat
  | ReleaseViews nat
  | ReleaseSendBuffers

text \<open>
  The state of one run: the FLUDS object (\<open>self\<close>), the local vectors \<open>send_requests\<close>
  (a slot is \<open>True\<close> once a send has been started in it) and \<open>multi_face_indices\<close>, and
  the calls made so far.
\<close>

record 'a beta_state =
  self :: "'a FLUDS_scheme"
  send_requests :: "bool list"
  multi_face_indices :: "int list list"
  trace :: "event list"

text \<open>A \<open>for\<close> loop over indices whose body can fail, and sequencing of such steps.\<close>

fun for_each :: "(nat \<Rightarrow> 's \<Rightarrow> error + 's) \<Rightarrow> nat list \<Rightarrow> 's \<Rightarrow> error + 's" where
  "for_each body [] s = Inr s"
| "for_each body (i # indices) s =
     (case body i s of Inl e \<Rightarrow> Inl e | Inr s' \<Rightarrow> for_each body indices s')"

definition and_then :: "error + 'a \<Rightarrow> ('a \<Rightarrow> error + 'b) \<Rightarrow> error + 'b" where
  "and_then r f = (case r of Inl e \<Rightarrow> Inl e | Inr x \<Rightarrow> f x)"

text \<open>
  The body that both send loops share behind their test: serialize the views of the
  successor into its transfer buffer, start the send, release the views.
\<close>

definition sent_to_successor :: "int \<Rightarrow> int \<Rightarrow> nat \<Rightarrow> 'a beta_state \<Rightarrow> 'a beta_state" where
  "sent_to_successor tag_index locJ deplocI s =
     s\<lparr>multi_face_indices :=
         (multi_face_indices s)
           [deplocI := SerializeCellInfo (deplocI_cell_views (self s) ! deplocI)
                         (multi_face_indices s ! deplocI)
                         (deplocI_face_dof_count (self s) ! deplocI)],
       send_requests := (send_requests s)[deplocI := True],
       trace := trace s @ [MPI_Isend locJ (101 + tag_index) deplocI, ReleaseViews deplocI],
       self := (self s)\<lparr>deplocI_cell_views := (deplocI_cell_views (self s))[deplocI := []]\<rparr>\<rparr>"

definition send_to_successor ::
  "int \<Rightarrow> int \<Rightarrow> nat \<Rightarrow> 'a beta_state \<Rightarrow> error + 'a beta_state" where
  "send_to_successor tag_index locJ deplocI s =
     (if deplocI < length (deplocI_cell_views (self s))
         \<and> deplocI < length (deplocI_face_dof_count (self s))
         \<and> deplocI < length (multi_face_indices s)
         \<and> deplocI < length (send_requests s)
      then Inr (sent_to_successor tag_index locJ deplocI s)
      else Inl OutOfRange)"

text \<open>First loop: the successors found in \<open>delayed_location_successors\<close>.\<close>

definition send_delayed_successor ::
  "SPDS \<Rightarrow> int \<Rightarrow> nat \<Rightarrow> 'a beta_state \<Rightarrow> error + 'a beta_state" where
  "send_delayed_successor spds tag_index deplocI s =
     (if location_successors spds ! deplocI \<notin> set (delayed_location_successors spds)
      then Inr s
      else send_to_successor tag_index (location_successors spds ! deplocI) deplocI s)"

definition send_delayed_successors ::
  "SPDS \<Rightarrow> int \<Rightarrow> 'a beta_state \<Rightarrow> error + 'a beta_state" where
  "send_delayed_successors spds tag_index s =
     for_each (send_delayed_successor spds tag_index)
       [0..<length (location_successors spds)] s"

text \<open>
  Second loop: probe and receive from every delayed predecessor. \<open>delayed_incoming prelocI\<close>
  is the message that the receive of iteration \<open>prelocI\<close> delivers.
\<close>

definition receive_delayed_predecessor ::
  "(nat \<Rightarrow> int list) \<Rightarrow> SPDS \<Rightarrow> int \<Rightarrow> nat \<Rightarrow> 'a beta_state \<Rightarrow> error + 'a beta_state" where
  "receive_delayed_predecessor delayed_incoming spds tag_index prelocI s =
     (if prelocI < length (delayed_prelocI_cell_views (self s))
         \<and> prelocI < length (delayed_prelocI_face_dof_count (self s))
      then
        (case DeSerializeCellInfo (delayed_prelocI_cell_views (self s) ! prelocI)
                (delayed_incoming prelocI) of
           Inl e \<Rightarrow> Inl e
         | Inr (cell_views, num_face_dofs) \<Rightarrow>
             Inr (s\<lparr>trace := trace s
                       @ [MPI_Probe (delayed_location_dependencies spds ! prelocI)
                            (101 + tag_index),
                          MPI_Recv (delayed_location_dependencies spds ! prelocI)
                            (101 + tag_index) (length (delayed_incoming prelocI))],
                    self := (self s)
                      \<lparr>delayed_prelocI_cell_views :=
                         (delayed_prelocI_cell_views (self s))[prelocI := cell_views],
                       delayed_prelocI_face_dof_count :=
                         (delayed_prelocI_face_dof_count (self s))
                           [prelocI := num_face_dofs]\<rparr>\<rparr>))
      else Inl OutOfRange)"

definition receive_delayed_predecessors ::
  "(nat \<Rightarrow> int list) \<Rightarrow> SPDS \<Rightarrow> int \<Rightarrow> 'a beta_state \<Rightarrow> error + 'a beta_state" where
  "receive_delayed_predecessors delayed_incoming spds tag_index s =
     for_each (receive_delayed_predecessor delayed_incoming spds tag_index)
       [0..<length (delayed_location_dependencies spds)]
       (s\<lparr>self := (self s)
            \<lparr>delayed_prelocI_cell_views :=
               resize (delayed_prelocI_cell_views (self s))
                 (length (delayed_location_dependencies spds)) [],
             delayed_prelocI_face_dof_count :=
               resize (delayed_prelocI_face_dof_count (self s))
                 (length (delayed_location_dependencies spds)) 0\<rparr>\<rparr>)"

text \<open>Third loop: probe and receive from every predecessor, in the order of the list.\<close>

definition receive_predecessor ::
  "(nat \<Rightarrow> int list) \<Rightarrow> SPDS \<Rightarrow> int \<Rightarrow> nat \<Rightarrow> 'a beta_state \<Rightarrow> error + 'a beta_state" where
  "receive_predecessor incoming spds tag_index prelocI s =
     (if prelocI < length (prelocI_cell_views (self s))
         \<and> prelocI < length (prelocI_face_dof_count (self s))
      then
        (case DeSerializeCellInfo (prelocI_cell_views (self s) ! prelocI)
                (incoming prelocI) of
           Inl e \<Rightarrow> Inl e
         | Inr (cell_views, num_face_dofs) \<Rightarrow>
             Inr (s\<lparr>trace := trace s
                       @ [MPI_Probe (location_dependencies spds ! prelocI) (101 + tag_index),
                          MPI_Recv (location_dependencies spds ! prelocI)
                            (101 + tag_index) (length (incoming prelocI))],
                    self := (self s)
                      \<lparr>prelocI_cell_views :=
                         (prelocI_cell_views (self s))[prelocI := cell_views],
                       prelocI_face_dof_count :=
                         (prelocI_face_dof_count (self s))[prelocI := num_face_dofs]\<rparr>\<rparr>))
      else Inl OutOfRange)"

definition receive_predecessors ::
  "(nat \<Rightarrow> int list) \<Rightarrow> SPDS \<Rightarrow> int \<Rightarrow> 'a beta_state \<Rightarrow> error + 'a beta_state" where
  "receive_predecessors incoming spds tag_index s =
     for_each (receive_predecessor incoming spds tag_index)
       [0..<length (location_dependencies spds)]
       (s\<lparr>self := (self s)
            \<lparr>prelocI_cell_views :=
               resize (prelocI_cell_views (self s)) (length (location_dependencies spds)) [],
             prelocI_face_dof_count :=
               resize (prelocI_face_dof_count (self s))
                 (length (location_dependencies spds)) 0\<rparr>\<rparr>)"

text \<open>Fourth loop: the successors not found in \<open>delayed_location_successors\<close>.\<close>

definition send_successor ::
  "SPDS \<Rightarrow> int \<Rightarrow> nat \<Rightarrow> 'a beta_state \<Rightarrow> error + 'a beta_state" where
  "send_successor spds tag_index deplocI s =
     (if location_successors spds ! deplocI \<in> set (delayed_location_successors spds)
      then Inr s
      else send_to_successor tag_index (location_successors spds ! deplocI) deplocI s)"

definition send_successors ::
  "SPDS \<Rightarrow> int \<Rightarrow> 'a beta_state \<Rightarrow> error + 'a beta_state" where
  "send_successors spds tag_index s =
     for_each (send_successor spds tag_index) [0..<length (location_successors spds)] s"

text \<open>
  Fifth loop: wait for the request of every slot, then release the transfer buffers. A
  slot in which no send was started holds no request to wait for.
\<close>

definition wait_for_send :: "nat \<Rightarrow> 'a beta_state \<Rightarrow> error + 'a beta_state" where
  "wait_for_send deplocI s =
     (if deplocI < length (send_requests s) \<and> send_requests s ! deplocI
      then Inr (s\<lparr>send_requests := (send_requests s)[deplocI := False],
                  trace := trace s @ [MPI_Wait deplocI]\<rparr>)
      else Inl InvalidRequest)"

definition verify_sends_completed :: "SPDS \<Rightarrow> 'a beta_state \<Rightarrow> error + 'a beta_state" where
  "verify_sends_completed spds s =
     and_then (for_each wait_for_send [0..<length (location_successors spds)] s)
       (\<lambda>s'. Inr (s'\<lparr>multi_face_indices := [], trace := trace s' @ [ReleaseSendBuffers]\<rparr>))"

text \<open>
  The loop over the cells in sweep order. The grid and \<open>NonLocalIncidentMapping\<close> are not
  part of this file: \<open>is_newbase\<close> tells whether the cell of a global index has type
  \<open>CELL_NEWBASE\<close>, and \<open>NonLocalIncidentMapping\<close> is any function on the FLUDS object.
\<close>

definition nonlocal_face_mappings ::
  "(int \<Rightarrow> bool) \<Rightarrow> (SPDS \<Rightarrow> int \<Rightarrow> 'a FLUDS_scheme \<Rightarrow> 'a FLUDS_scheme) \<Rightarrow> SPDS
     \<Rightarrow> 'a FLUDS_scheme \<Rightarrow> 'a FLUDS_scheme" where
  "nonlocal_face_mappings is_newbase NonLocalIncidentMapping spds fluds =
     fold (\<lambda>cell_g_index fl.
             if is_newbase cell_g_index then NonLocalIncidentMapping spds cell_g_index fl
             else fl)
       (spls_item_id spds) fluds"

text \<open>The three swaps with an empty vector at the end.\<close>

definition clear_unnecessary_data :: "'a FLUDS_scheme \<Rightarrow> 'a FLUDS_scheme" where
  "clear_unnecessary_data fluds =
     fluds\<lparr>deplocI_cell_views := [], prelocI_cell_views := [],
           delayed_prelocI_cell_views := []\<rparr>"

definition InitializeBetaElements ::
  "(int \<Rightarrow> bool) \<Rightarrow> (SPDS \<Rightarrow> int \<Rightarrow> 'a FLUDS_scheme \<Rightarrow> 'a FLUDS_scheme)
     \<Rightarrow> (nat \<Rightarrow> int list) \<Rightarrow> (nat \<Rightarrow> int list) \<Rightarrow> SPDS \<Rightarrow> int \<Rightarrow> 'a FLUDS_scheme
     \<Rightarrow> error + ('a FLUDS_scheme \<times> event list)" where
  "InitializeBetaElements is_newbase NonLocalIncidentMapping delayed_incoming incoming
       spds tag_index fluds =
     and_then (send_delayed_successors spds tag_index
                 \<lparr>self = fluds,
                  send_requests = replicate (length (location_successors spds)) False,
                  multi_face_indices = replicate (length (location_successors spds)) [],
                  trace = []\<rparr>) (\<lambda>s1.
     and_then (receive_delayed_predecessors delayed_incoming spds tag_index s1) (\<lambda>s2.
     and_then (receive_predecessors incoming spds tag_index s2) (\<lambda>s3.
     and_then (send_successors spds tag_index s3) (\<lambda>s4.
     and_then (verify_sends_completed spds s4) (\<lambda>s5.
     Inr (clear_unnecessary_data
            (nonlocal_face_mappings is_newbase NonLocalIncidentMapping spds (self s5)),
          trace s5))))))"

subsection \<open>The calls of a run\<close>

text \<open>
  The calls that the phases of one run are expected to make. \<open>send_events\<close> are the sends
  to the successors that \<open>chosen\<close> selects, each followed by the release of the views of
  its slot; \<open>receive_events\<close> are a probe and a receive for every source, in the order of
  the list; \<open>wait_events\<close> are the waits for the \<open>n\<close> slots and the release of the transfer
  buffers.
\<close>

definition send_events :: "SPDS \<Rightarrow> int \<Rightarrow> (int \<Rightarrow> bool) \<Rightarrow> event list" where
  "send_events spds tag_index chosen =
     concat (map (\<lambda>deplocI. [MPI_Isend (location_successors spds ! deplocI)
                                (101 + tag_index) deplocI,
                              ReleaseViews deplocI])
               (filter (\<lambda>deplocI. chosen (location_successors spds ! deplocI))
                  [0..<length (location_successors spds)]))"

definition receive_events :: "int list \<Rightarrow> (nat \<Rightarrow> int list) \<Rightarrow> int \<Rightarrow> event list" where
  "receive_events sources incoming tag_index =
     concat (map (\<lambda>prelocI. [MPI_Probe (sources ! prelocI) (101 + tag_index),
                              MPI_Recv (sources ! prelocI) (101 + tag_index)
                                (length (incoming prelocI))])
               [0..<length sources])"

definition wait_events :: "nat \<Rightarrow> event list" where
  "wait_events n = map MPI_Wait [0..<n] @ [ReleaseSendBuffers]"

text \<open>The number of sends to a process in a sequence of calls.\<close>

fun is_send_to :: "int \<Rightarrow> event \<Rightarrow> bool" where
  "is_send_to locJ (MPI_Isend dest tag slot) = (dest = locJ)"
| "is_send_to locJ _ = False"

definition sends_to :: "int \<Rightarrow> event list \<Rightarrow> nat" where
  "sends_to locJ calls = length (filter (is_send_to locJ) calls)"

text \<open>Every send is followed at once by the release of the views of its slot.\<close>

fun releases_follow_sends :: "event list \<Rightarrow> bool" where
  "releases_follow_sends [] = True"
| "releases_follow_sends (MPI_Isend dest tag slot # rest) =
     (case rest of
        ReleaseViews slot' # rest' \<Rightarrow> slot' = slot \<and> releases_follow_sends rest'
      | _ \<Rightarrow> False)"
| "releases_follow_sends (e # rest) = releases_follow_sends rest"

text \<open>
  The conditions under which a run has no undefined behaviour: the FLUDS object holds
  views and a face-dof count for every successor, and every message received can be
  decoded into the cell views of its predecessor.
\<close>

definition run_defined ::
  "(nat \<Rightarrow> int list) \<Rightarrow> (nat \<Rightarrow> int list) \<Rightarrow> SPDS \<Rightarrow> 'a FLUDS_scheme \<Rightarrow> bool" where
  "run_defined delayed_incoming incoming spds fluds \<longleftrightarrow>
     length (location_successors spds) \<le> length (deplocI_cell_views fluds)
     \<and> length (location_successors spds) \<le> length (deplocI_face_dof_count fluds)
     \<and> (\<forall>prelocI\<in>set [0..<length (delayed_location_dependencies spds)].
          \<not> isl (DeSerializeCellInfo
                   (resize (delayed_prelocI_cell_views fluds)
                      (length (delayed_location_dependencies spds)) [] ! prelocI)
                   (delayed_incoming prelocI)))
     \<and> (\<forall>prelocI\<in>set [0..<length (location_dependencies spds)].
          \<not> isl (DeSerializeCellInfo
                   (resize (prelocI_cell_views fluds)
                      (length (location_dependencies spds)) [] ! prelocI)
                   (incoming prelocI)))"

text \<open>What a send loop leaves as it is, for the proofs.\<close>

definition sends_frame :: "'a beta_state \<Rightarrow> 'a beta_state \<Rightarrow> bool" where
  "sends_frame s s' \<longleftrightarrow>
     length (deplocI_cell_views (self s')) = length (deplocI_cell_views (self s))
     \<and> deplocI_face_dof_count (self s') = deplocI_face_dof_count (self s)
     \<and> prelocI_cell_views (self s') = prelocI_cell_views (self s)
     \<and> prelocI_face_dof_count (self s') = prelocI_face_dof_count (self s)
     \<and> delayed_prelocI_cell_views (self s') = delayed_prelocI_cell_views (self s)
     \<and> delayed_prelocI_face_dof_count (self s') = delayed_prelocI_face_dof_count (self s)
     \<and> length (multi_face_indices s') = length (multi_face_indices s)
     \<and> length (send_requests s') = length (send_requests s)"

text \<open>A small run: two successors, the second one delayed, and one predecessor of each kind.\<close>

definition example_spds :: SPDS where
  "example_spds =
     \<lparr>location_dependencies = [3], location_successors = [1, 2],
      delayed_location_dependencies = [4], delayed_location_successors = [2],
      spls_item_id = [0, 1]\<rparr>"

definition example_fluds :: FLUDS where
  "example_fluds =
     \<lparr>deplocI_cell_views = [[(3, [(7, [1, 2])])], [(4, [(9, [])])]],
      deplocI_face_dof_count = [6, 5],
      prelocI_cell_views = [], prelocI_face_dof_count = [],
      delayed_prelocI_cell_views = [], delayed_prelocI_face_dof_count = []\<rparr>"

section \<open>The sweep buffer (sweepbuffer_general.cc)\<close>

text \<open>
  A request handle is either null or names a pending send. \<open>MPI_Test\<close> reports a null
  handle and a completed send as sent, and sets the handle of a completed send to null;
  \<open>completed\<close> says which sends the library has completed at the time of the call.
\<close>

datatype MPI_Request = MPI_REQUEST_NULL | Pending nat

definition MPI_Test :: "(nat \<Rightarrow> bool) \<Rightarrow> MPI_Request \<Rightarrow> MPI_Request \<times> bool" where
  "MPI_Test completed request =
     (case request of
        MPI_REQUEST_NULL \<Rightarrow> (MPI_REQUEST_NULL, True)
      | Pending h \<Rightarrow> if completed h then (MPI_REQUEST_NULL, True) else (Pending h, False))"

text \<open>
  The members of the sweep buffer that this file names; the FLUDS object it refers to and
  the communicator set are of any type, the members declared elsewhere are the extension
  of the record. \<open>the_fluds\<close>, \<open>num_groups\<close> and \<open>num_angles\<close> stand for \<open>fluds_\<close>,
  \<open>num_groups_\<close> and \<open>num_angles_\<close>, which are no names here.
\<close>

record ('fluds, 'comm) SweepBuffer =
  the_fluds :: 'fluds
  num_groups :: nat
  num_angles :: nat
  comm_set :: 'comm
  done_sending :: bool
  data_initialized :: bool
  upstream_data_initialized :: bool
  EAGER_LIMIT :: int
  max_num_mess :: int
  deplocI_message_request :: "MPI_Request list list"
  prelocI_message_received :: "bool list list"
  delayed_prelocI_message_received :: "bool list list"

definition DoneSending :: "('f, 'c, 'z) SweepBuffer_scheme \<Rightarrow> bool" where
  "DoneSending sb = done_sending sb"

text \<open>
  The two nested loops over the requests: they stop at the first request that is not
  sent, and return the handles as \<open>MPI_Test\<close> left them.
\<close>

fun test_requests :: "(nat \<Rightarrow> bool) \<Rightarrow> MPI_Request list \<Rightarrow> MPI_Request list \<times> bool" where
  "test_requests completed [] = ([], True)"
| "test_requests completed (request # rest) =
     (if snd (MPI_Test completed request)
      then (fst (MPI_Test completed request) # fst (test_requests completed rest),
            snd (test_requests completed rest))
      else (fst (MPI_Test completed request) # rest, False))"

fun test_all_requests ::
  "(nat \<Rightarrow> bool) \<Rightarrow> MPI_Request list list \<Rightarrow> MPI_Request list list \<times> bool" where
  "test_all_requests completed [] = ([], True)"
| "test_all_requests completed (locI_requests # rest) =
     (if snd (test_requests completed locI_requests)
      then (fst (test_requests completed locI_requests)
              # fst (test_all_requests completed rest),
            snd (test_all_requests completed rest))
      else (fst (test_requests completed locI_requests) # rest, False))"

text \<open>
  \<open>ClearSendPsi\<close> of the FLUDS object is not part of this file; it is any function on
  that object.
\<close>

definition ClearDownstreamBuffers ::
  "('f \<Rightarrow> 'f) \<Rightarrow> (nat \<Rightarrow> bool) \<Rightarrow> ('f, 'c, 'z) SweepBuffer_scheme
     \<Rightarrow> ('f, 'c, 'z) SweepBuffer_scheme" where
  "ClearDownstreamBuffers ClearSendPsi completed sb =
     (if done_sending sb then sb
      else if \<not> snd (test_all_requests completed (deplocI_message_request sb))
      then sb\<lparr>done_sending := False,
              deplocI_message_request :=
                fst (test_all_requests completed (deplocI_message_request sb))\<rparr>
      else sb\<lparr>done_sending := True,
              deplocI_message_request :=
                fst (test_all_requests completed (deplocI_message_request sb)),
              the_fluds := ClearSendPsi (the_fluds sb)\<rparr>)"

definition Reset :: "('f, 'c, 'z) SweepBuffer_scheme \<Rightarrow> ('f, 'c, 'z) SweepBuffer_scheme" where
  "Reset sb =
     sb\<lparr>done_sending := False,
        data_initialized := False,
        upstream_data_initialized := False,
        prelocI_message_received :=
          map (\<lambda>message_flags. replicate (length message_flags) False)
            (prelocI_message_received sb),
        delayed_prelocI_message_received :=
          map (\<lambda>message_flags. replicate (length message_flags) False)
            (delayed_prelocI_message_received sb)\<rparr>"

text \<open>
  A sequence of calls of \<open>ClearDownstreamBuffers\<close>, one for each element of the list, which
  says what the library has completed at the time of that call; and whether every request
  that is still pending is completed.
\<close>

definition poll :: "('f \<Rightarrow> 'f) \<Rightarrow> (nat \<Rightarrow> bool) list \<Rightarrow> ('f, 'c, 'z) SweepBuffer_scheme
     \<Rightarrow> ('f, 'c, 'z) SweepBuffer_scheme" where
  "poll ClearSendPsi calls sb = fold (ClearDownstreamBuffers ClearSendPsi) calls sb"

definition all_sent :: "(nat \<Rightarrow> bool) \<Rightarrow> MPI_Request list list \<Rightarrow> bool" where
  "all_sent completed requests \<longleftrightarrow>
     (\<forall>locI_requests\<in>set requests. \<forall>request\<in>set locI_requests.
        case request of MPI_REQUEST_NULL \<Rightarrow> True | Pending h \<Rightarrow> completed h)"

text \<open>A sweep buffer with three pending sends to two processes.\<close>

definition example_buffer :: "(nat, unit) SweepBuffer" where
  "example_buffer =
     \<lparr>the_fluds = 0, num_groups = 2, num_angles = 4, comm_set = (),
      done_sending = False, data_initialized = True, upstream_data_initialized = True,
      EAGER_LIMIT = 32000, max_num_mess = 3,
      deplocI_message_request = [[Pending 0, Pending 1], [Pending 2]],
      prelocI_message_received = [[True, False], [True]],
      delayed_prelocI_message_received = [[True]]\<rparr>"

section \<open>Proofs: the serializer\<close>

lemma push_face_vertices_append: "push_face_vertices vs buf = buf @ vs"
  by (induction vs arbitrary: buf) simp_all

lemma push_cell_faces_append:
  "push_cell_faces g fs buf = buf @ concat (map (wire_face_group g) fs)"
  by (induction fs arbitrary: buf) (simp_all add: push_face_vertices_append wire_face_group_def)

lemma push_cells_append:
  "push_cells cs buf = buf @ concat (map wire_cell_groups cs)"
  by (induction cs arbitrary: buf) (simp_all add: push_cell_faces_append wire_cell_groups_def)

lemma SerializeCellInfo_wire:
  "SerializeCellInfo cvs buf d = buf @ wire_buffer cvs d"
  by (simp add: SerializeCellInfo_def push_cells_append wire_buffer_def)

lemma concat_face_groups:
  "concat (face_groups cvs) = concat (map wire_cell_groups cvs)"
  by (induction cvs) (simp_all add: face_groups_def wire_cell_groups_def)

lemma heads_of_face_groups:
  "map hd (face_groups cvs)
   = concat (map (\<lambda>cv. replicate (length (snd cv)) (- fst cv - 1)) cvs)"
proof -
  have "map hd (map (wire_face_group m) fs) = replicate (length fs) m" for m fs
    by (simp add: wire_face_group_def comp_def map_replicate_const)
  then show ?thesis
    by (induction cvs) (simp_all add: face_groups_def)
qed

lemma marker_blocks_of_cells_with_faces:
  fixes cvs :: "CompactCellView list"
  shows "concat (map (\<lambda>cv. replicate (length (snd cv)) (- fst cv - 1)) cvs)
         = concat (map (\<lambda>cv. replicate (length (snd cv)) (- fst cv - 1))
                     (filter (\<lambda>cv. snd cv \<noteq> []) cvs))"
  by (induction cvs) simp_all

lemma remdups_adj_marker_blocks:
  fixes cvs :: "CompactCellView list"
  assumes "\<forall>cv\<in>set cvs. snd cv \<noteq> []" and "distinct_adj (map fst cvs)"
  shows "remdups_adj (concat (map (\<lambda>cv. replicate (length (snd cv)) (- fst cv - 1)) cvs))
         = map (\<lambda>cv. - fst cv - 1) cvs"
  using assms
proof (induction cvs)
  case Nil
  show ?case by simp
next
  case (Cons cv cvs)
  let ?block = "replicate (length (snd cv)) (- fst cv - 1)"
  let ?rest = "concat (map (\<lambda>cv. replicate (length (snd cv)) (- fst cv - 1)) cvs)"
  from Cons.prems have face: "snd cv \<noteq> []" and faces: "\<forall>cv\<in>set cvs. snd cv \<noteq> []"
    and adj: "distinct_adj (map fst cvs)"
    by (auto dest: distinct_adj_ConsD)
  from face have block: "remdups_adj ?block = [- fst cv - 1]" "last ?block = - fst cv - 1"
    "?block \<noteq> []"
    by (simp_all add: remdups_adj_replicate)
  have "?rest = [] \<or> last ?block \<noteq> hd ?rest"
  proof (cases cvs)
    case Nil
    then show ?thesis by simp
  next
    case (Cons cv' cvs')
    with faces have "snd cv' \<noteq> []" by simp
    then have "hd ?rest = - fst cv' - 1"
      by (cases "snd cv'") (simp_all add: Cons)
    moreover from Cons.prems(2) Cons have "- fst cv - 1 \<noteq> - fst cv' - 1" by simp
    ultimately show ?thesis by (simp only: block) simp
  qed
  then have "remdups_adj (?block @ ?rest) = remdups_adj ?block @ remdups_adj ?rest"
    by (intro remdups_adj_append') simp
  with Cons.IH [OF faces adj] show ?case by (simp add: block)
qed

section \<open>Proofs: the decoder\<close>

lemma deser_loop_decode_rest:
  "deser_loop fi k last_cell c f v cvs = decode_rest (drop k fi) last_cell c f cvs"
proof (induction fi k last_cell c f v cvs rule: deser_loop.induct)
  case (1 fi k last_cell c f v cvs)
  show ?case
  proof (cases "k < length fi")
    case False
    then show ?thesis by (subst deser_loop.simps) simp
  next
    case True
    then have d: "drop k fi = fi ! k # drop (Suc k) fi"
      by (simp add: Cons_nth_drop_Suc)
    show ?thesis
    proof (cases "Suc k < length fi")
      case True
      then have d2: "drop (Suc k) fi = fi ! Suc k # drop (Suc (Suc k)) fi"
        by (simp add: Cons_nth_drop_Suc)
      from \<open>k < length fi\<close> True show ?thesis
        apply (subst deser_loop.simps)
        apply (simp only: d d2)
        using 1 by (auto simp: d2)
    next
      case False
      with \<open>k < length fi\<close> have e: "drop (Suc k) fi = []" by simp
      from \<open>k < length fi\<close> False show ?thesis
        apply (subst deser_loop.simps)
        apply (simp only: d e)
        using 1 by (auto simp: e)
    qed
  qed
qed

lemma DeSerializeCellInfo_decode_rest:
  "DeSerializeCellInfo cvs (d # n # body) =
     (if n < 0 then Inl LengthError
      else (case decode_rest body (- 1) (- 1) (- 1) (resize cvs (nat n) empty_cell_view) of
              Inl e \<Rightarrow> Inl e | Inr out \<Rightarrow> Inr (out, d)))"
  by (simp add: DeSerializeCellInfo_def deser_loop_decode_rest numeral_2_eq_2
      split: sum.splits)

lemma valid_index_int [simp]: "valid_index xs (int n) \<longleftrightarrow> n < length xs"
  by (simp add: valid_index_def)

lemma valid_index_int_Suc [simp]: "valid_index xs (int n + 1) \<longleftrightarrow> Suc n < length xs"
  by (auto simp: valid_index_def)

lemma valid_index_Suc_int [simp]: "valid_index xs (1 + int n) \<longleftrightarrow> Suc n < length xs"
  by (auto simp: valid_index_def)

lemma nat_int_Suc [simp]: "nat (int n + 1) = Suc n"
  by simp

lemma nat_Suc_int [simp]: "nat (1 + int n) = Suc n"
  by simp

lemma push_vertex_at:
  "push_vertex (done @ (cid, fs @ [(fid, vs0)]) # tail) (length done) (length fs) x
   = done @ (cid, fs @ [(fid, vs0 @ [x])]) # tail"
  by (simp add: push_vertex_def)

lemma begin_face_at:
  "begin_face (done @ (cid, fs) # tail) (length done) (length fs) face_id
   = done @ (cid, fs @ [(face_id, [])]) # tail"
  by (simp add: begin_face_def push_face_def set_face_first_def empty_face_view_def)

lemma begin_cell_at:
  "begin_cell (done @ empty_cell_view # tail) (length done) entry face_id
   = done @ (- entry - 1, [(face_id, [])]) # tail @ [empty_cell_view]"
  by (simp add: begin_cell_def push_face_def set_face_first_def set_cell_first_def
      empty_face_view_def empty_cell_view_def)

lemma decode_vertices:
  assumes "\<forall>x\<in>set vs. 0 \<le> x"
  shows "decode_rest (vs @ rest) last_cell (int (length done)) (int (length fs))
           (done @ (cid, fs @ [(fid, vs0)]) # tail)
         = decode_rest rest last_cell (int (length done)) (int (length fs))
           (done @ (cid, fs @ [(fid, vs0 @ vs)]) # tail)"
  using assms
proof (induction vs arbitrary: vs0)
  case Nil
  show ?case by simp
next
  case (Cons x vs)
  then have "0 \<le> x" and rest: "\<forall>y\<in>set vs. 0 \<le> y" by simp_all
  have "decode_rest ((x # vs) @ rest) last_cell (int (length done)) (int (length fs))
           (done @ (cid, fs @ [(fid, vs0)]) # tail)
        = decode_rest (vs @ rest) last_cell (int (length done)) (int (length fs))
           (done @ (cid, fs @ [(fid, vs0 @ [x])]) # tail)"
    using \<open>0 \<le> x\<close> by (simp add: push_vertex_at)
  also have "\<dots> = decode_rest rest last_cell (int (length done)) (int (length fs))
           (done @ (cid, fs @ [(fid, (vs0 @ [x]) @ vs)]) # tail)"
    by (rule Cons.IH [OF rest])
  finally show ?case by simp
qed

lemma decode_faces:
  assumes "\<forall>fv\<in>set fs2. \<forall>x\<in>set (snd fv). 0 \<le> x" and "m < 0"
  shows "decode_rest (concat (map (wire_face_group m) fs2) @ rest) (- m)
           (int (length done)) (int (length fs))
           (done @ (cid, fs @ [cur]) # tail)
         = decode_rest rest (- m) (int (length done)) (int (length (fs @ fs2)))
           (done @ (cid, fs @ cur # fs2) # tail)"
  using assms(1)
proof (induction fs2 arbitrary: fs cur)
  case Nil
  show ?case by simp
next
  case (Cons fv fs2)
  obtain fid vs where fv: "fv = (fid, vs)" by (cases fv)
  from Cons.prems fv have vs: "\<forall>x\<in>set vs. 0 \<le> x"
    and rest: "\<forall>fv\<in>set fs2. \<forall>x\<in>set (snd fv). 0 \<le> x" by simp_all
  have "decode_rest (concat (map (wire_face_group m) (fv # fs2)) @ rest) (- m)
           (int (length done)) (int (length fs)) (done @ (cid, fs @ [cur]) # tail)
        = decode_rest (vs @ concat (map (wire_face_group m) fs2) @ rest) (- m)
           (int (length done)) (int (length (fs @ [cur])))
           (done @ (cid, (fs @ [cur]) @ [(fid, [])]) # tail)"
    using \<open>m < 0\<close> begin_face_at [of "done" cid "fs @ [cur]" tail fid]
    by (simp add: fv wire_face_group_def push_face_def add.commute)
  also have "\<dots> = decode_rest (concat (map (wire_face_group m) fs2) @ rest) (- m)
           (int (length done)) (int (length (fs @ [cur])))
           (done @ (cid, (fs @ [cur]) @ [(fid, [] @ vs)]) # tail)"
    by (rule decode_vertices [OF vs])
  also have "\<dots> = decode_rest rest (- m) (int (length done))
           (int (length ((fs @ [cur]) @ fs2)))
           (done @ (cid, (fs @ [cur]) @ (fid, [] @ vs) # fs2) # tail)"
    by (rule Cons.IH [OF rest])
  finally show ?case by (simp add: fv)
qed

lemma decode_cells:
  assumes "decodable_views cs" and "cs \<noteq> [] \<Longrightarrow> last_cell \<noteq> fst (hd cs) + 1"
  shows "decode_rest (concat (map wire_cell_groups cs)) last_cell (int (length done) - 1) f
           (done @ replicate (length cs + j) empty_cell_view @ extra)
         = Inr (done @ cs @ replicate j empty_cell_view @ extra
                  @ replicate (length cs) empty_cell_view)"
  using assms
proof (induction cs arbitrary: last_cell f "done" extra)
  case Nil
  show ?case by simp
next
  case (Cons cv cs)
  obtain cid faces where cv: "cv = (cid, faces)" by (cases cv)
  from Cons.prems(1) cv obtain fv fs2 where faces: "faces = fv # fs2"
    by (cases faces) (auto simp: decodable_views_def)
  obtain fid vs where fv: "fv = (fid, vs)" by (cases fv)
  define m where "m = - cid - 1"
  from Cons.prems(1) have cid: "0 \<le> cid"
    and vs: "\<forall>x\<in>set vs. 0 \<le> x"
    and fs2: "\<forall>fv\<in>set fs2. \<forall>x\<in>set (snd fv). 0 \<le> x"
    and dec: "decodable_views cs"
    and adj: "cs \<noteq> [] \<Longrightarrow> cid + 1 \<noteq> fst (hd cs) + 1"
    by (auto simp: decodable_views_def cv faces fv distinct_adj_Cons hd_map)
  from cid have m: "m < 0" and mm: "- m = cid + 1" by (simp_all add: m_def)
  from Cons.prems(2) have new: "- m \<noteq> last_cell" by (simp add: cv mm)
  let ?T = "replicate (length cs + j) empty_cell_view @ extra"
  let ?G = "concat (map (wire_face_group m) fs2)"
  let ?R = "concat (map wire_cell_groups cs)"
  have split: "concat (map wire_cell_groups (cv # cs)) = m # fid # vs @ ?G @ ?R"
    by (simp add: wire_cell_groups_def wire_face_group_def cv faces fv m_def)
  have "decode_rest (concat (map wire_cell_groups (cv # cs))) last_cell
          (int (length done) - 1) f
          (done @ replicate (length (cv # cs) + j) empty_cell_view @ extra)
        = decode_rest (vs @ ?G @ ?R) (- m) (int (length done)) 0
          (done @ (cid, [] @ [(fid, [])]) # ?T @ [empty_cell_view])"
    unfolding split using m new begin_cell_at [of "done" ?T m fid]
    by (simp add: mm)
  also have "\<dots> = decode_rest (?G @ ?R) (- m) (int (length done))
          (int (length ([]::CompactFaceView list)))
          (done @ (cid, [] @ [(fid, [] @ vs)]) # ?T @ [empty_cell_view])"
    using decode_vertices [OF vs, of "?G @ ?R" "- m" "done" "[]" cid fid "[]"] by simp
  also have "\<dots> = decode_rest ?R (- m) (int (length done)) (int (length ([] @ fs2)))
          (done @ (cid, [] @ (fid, [] @ vs) # fs2) # ?T @ [empty_cell_view])"
    by (rule decode_faces [OF fs2 m])
  also have "\<dots> = decode_rest ?R (cid + 1) (int (length (done @ [cv])) - 1) (int (length fs2))
          ((done @ [cv]) @ replicate (length cs + j) empty_cell_view
             @ (extra @ [empty_cell_view]))"
    by (simp add: mm cv faces fv)
  also have "\<dots> = Inr ((done @ [cv]) @ cs @ replicate j empty_cell_view
                       @ (extra @ [empty_cell_view]) @ replicate (length cs) empty_cell_view)"
    by (rule Cons.IH [OF dec adj])
  finally show ?case by (simp add: replicate_append_same)
qed

lemma deserialize_wire:
  assumes "decodable_views cvs"
  shows "DeSerializeCellInfo [] (wire_buffer cvs d)
         = Inr (cvs @ replicate (length cvs) empty_cell_view, d)"
proof -
  have first: "cvs \<noteq> [] \<Longrightarrow> (- 1 :: int) \<noteq> fst (hd cvs) + 1"
    using assms by (cases cvs) (auto simp: decodable_views_def)
  have "decode_rest (concat (map wire_cell_groups cvs)) (- 1)
          (int (length ([]::CompactCellView list)) - 1) (- 1)
          ([] @ replicate (length cvs + 0) empty_cell_view @ [])
        = Inr ([] @ cvs @ replicate 0 empty_cell_view @ []
                 @ replicate (length cvs) empty_cell_view)"
    by (rule decode_cells [OF assms first])
  then show ?thesis
    by (simp add: wire_buffer_def DeSerializeCellInfo_decode_rest resize_def)
qed

lemma decode_rest_length:
  "decode_rest xs last_cell c f cvs = Inr out \<Longrightarrow> length cvs \<le> length out"
proof (induction xs last_cell c f cvs rule: decode_rest.induct)
  case (1 last_cell c f cell_views)
  then show ?case by simp
next
  case (2 entry rest last_cell c f cell_views)
  have len: "length (begin_cell cell_views i e x) = Suc (length cell_views)"
    "length (begin_face cell_views i j x) = length cell_views"
    "length (push_vertex cell_views i j x) = length cell_views" for i j e x
    by (simp_all add: begin_cell_def begin_face_def push_vertex_def set_face_first_def
        push_face_def set_cell_first_def)
  from 2 show ?case
    by (auto simp: len split: if_splits list.splits)
qed

lemma DeSerializeCellInfo_header:
  assumes "DeSerializeCellInfo cvs fi = Inr (out, d)"
  shows "d = fi ! 0 \<and> 0 \<le> fi ! 1 \<and> nat (fi ! 1) \<le> length out"
proof -
  from assms have "2 \<le> length fi" and n: "0 \<le> fi ! 1"
    by (auto simp: DeSerializeCellInfo_def split: if_splits)
  then obtain a b body where fi: "fi = a # b # body"
    by (cases fi; cases "tl fi") auto
  from assms n have "d = a"
    and "decode_rest body (- 1) (- 1) (- 1) (resize cvs (nat b) empty_cell_view) = Inr out"
    by (auto simp: fi DeSerializeCellInfo_decode_rest split: sum.splits)
  from decode_rest_length [OF this(2)] \<open>d = a\<close> n show ?thesis
    by (simp add: fi resize_def)
qed

section \<open>Claims about the transfer buffer\<close>

text \<open>
  C1 (counterexample). Three lists that the hypotheses of the claim admit. With a negative
  vertex id the decoder reads the vertex as a marker and runs past the end of the buffer.
  Two neighbours in the list with the same cell id are decoded as one cell. And for one
  cell with one face the decoder returns the cell followed by a value-initialised cell
  view: two entries, where the claim promises the original list of one.
\<close>

theorem C1_roundtrip_counterexample:
  "DeSerializeCellInfo [] (SerializeCellInfo [(3, [(7, [1, - 2])])] [] 6) = Inl OutOfRange
   \<and> DeSerializeCellInfo [] (SerializeCellInfo [(3, [(7, [1])]), (3, [(8, [2])])] [] 6)
     = Inr ([(3, [(7, [1]), (8, [2])]), (0, []), (0, [])], 6)
   \<and> DeSerializeCellInfo [] (SerializeCellInfo [(3, [(7, [1])]), (3, [(8, [2])])] [] 6)
     \<noteq> Inr ([(3, [(7, [1])]), (3, [(8, [2])])], 6)
   \<and> DeSerializeCellInfo [] (SerializeCellInfo [(3, [(7, [1, 2])])] [] 6)
     = Inr ([(3, [(7, [1, 2])]), (0, [])], 6)
   \<and> DeSerializeCellInfo [] (SerializeCellInfo [(3, [(7, [1, 2])])] [] 6)
     \<noteq> Inr ([(3, [(7, [1, 2])])], 6)"
  by code_simp

text \<open>
  C1 (amended). For every list of compact cell views in which every cell has at least one
  face, all global cell ids and all vertex ids are non-negative and no two neighbours in
  the list have the same cell id, \<open>DeSerializeCellInfo\<close> on an empty output vector and the
  buffer of \<open>SerializeCellInfo\<close> succeeds, recovers \<open>num_face_dofs\<close>, and the leading
  entries of its output, as many as there were cells, are exactly the original list.
\<close>

theorem C1_roundtrip_leading_entries:
  assumes "\<forall>cv\<in>set cell_views. snd cv \<noteq> [] \<and> 0 \<le> fst cv"
    and "\<forall>cv\<in>set cell_views. \<forall>fv\<in>set (snd cv). \<forall>x\<in>set (snd fv). 0 \<le> x"
    and "distinct_adj (map fst cell_views)"
  shows "\<exists>out. DeSerializeCellInfo [] (SerializeCellInfo cell_views [] num_face_dofs)
                 = Inr (out, num_face_dofs)
               \<and> take (length cell_views) out = cell_views"
proof -
  from assms have "decodable_views cell_views"
    by (simp add: decodable_views_def)
  then show ?thesis
    by (simp add: SerializeCellInfo_wire deserialize_wire)
qed

theorem C1_roundtrip_leading_entries_witness:
  "\<exists>out. DeSerializeCellInfo []
            (SerializeCellInfo [(3, [(7, [1, 2]), (8, [5])]), (4, [(9, [])])] [] 6)
          = Inr (out, 6)
        \<and> take (length [(3::int, [(7::int, [1, 2::int]), (8, [5])]), (4, [(9, [])])]) out
          = [(3, [(7, [1, 2]), (8, [5])]), (4, [(9, [])])]"
  by (rule C1_roundtrip_leading_entries) simp_all

text \<open>
  C4 (counterexample). A cell with two faces: its marker \<open>-4\<close> is written twice, once in
  front of each face. And two neighbours in the list with the same cell id: the second
  cell begins at the second \<open>-4\<close>, a marker that does not differ from the one before it.
\<close>

theorem C4_marker_repeated_counterexample:
  "SerializeCellInfo [(3, [(7, [1]), (8, [2])])] [] 6 = [6, 1, - 4, 7, 1, - 4, 8, 2]
   \<and> count_list (SerializeCellInfo [(3, [(7, [1]), (8, [2])])] [] 6) (- 3 - 1) = 2
   \<and> SerializeCellInfo [(3, [(7, [1])]), (3, [(8, [2])])] [] 6
     = [6, 2, - 4, 7, 1, - 4, 8, 2]"
  by code_simp

text \<open>
  C4 (amended). For every list of compact cell views, the buffer of \<open>SerializeCellInfo\<close> is
  the header of two entries followed, cell after cell and face after face, by one group
  for each face, and the group is the marker of the cell, the face id, the vertex ids:
  the marker of a cell appears once for each of its faces, at the head of each of its
  face groups, and consecutive faces of the same cell repeat it. When no two cells that
  follow each other in the buffer have the same id (a cell without a face writes nothing),
  dropping the repetitions from the markers at the heads of the groups leaves one marker
  for each of these cells, so the marker of a group differs from the marker of the group
  before it exactly where a new cell begins.
\<close>

theorem C4_marker_once_per_face:
  "SerializeCellInfo cell_views [] num_face_dofs
     = [num_face_dofs, int (length cell_views)] @ concat (face_groups cell_views)
   \<and> face_groups cell_views
     = concat (map (\<lambda>cv. map (\<lambda>fv. (- fst cv - 1) # fst fv # snd fv) (snd cv)) cell_views)
   \<and> map hd (face_groups cell_views)
     = concat (map (\<lambda>cv. replicate (length (snd cv)) (- fst cv - 1)) cell_views)
   \<and> (distinct_adj (map fst (filter (\<lambda>cv. snd cv \<noteq> []) cell_views)) \<longrightarrow>
        remdups_adj (map hd (face_groups cell_views))
        = map (\<lambda>cv. - fst cv - 1) (filter (\<lambda>cv. snd cv \<noteq> []) cell_views))"
proof (intro conjI impI)
  show "SerializeCellInfo cell_views [] num_face_dofs
        = [num_face_dofs, int (length cell_views)] @ concat (face_groups cell_views)"
    by (simp add: SerializeCellInfo_wire wire_buffer_def concat_face_groups)
  show "face_groups cell_views
        = concat (map (\<lambda>cv. map (\<lambda>fv. (- fst cv - 1) # fst fv # snd fv) (snd cv)) cell_views)"
    unfolding face_groups_def wire_face_group_def [abs_def] by (rule refl)
  show "map hd (face_groups cell_views)
        = concat (map (\<lambda>cv. replicate (length (snd cv)) (- fst cv - 1)) cell_views)"
    by (rule heads_of_face_groups)
next
  assume adj: "distinct_adj (map fst (filter (\<lambda>cv. snd cv \<noteq> []) cell_views))"
  have "remdups_adj
          (concat (map (\<lambda>cv. replicate (length (snd cv)) (- fst cv - 1))
                     (filter (\<lambda>cv. snd cv \<noteq> []) cell_views)))
        = map (\<lambda>cv. - fst cv - 1) (filter (\<lambda>cv. snd cv \<noteq> []) cell_views)"
    by (rule remdups_adj_marker_blocks) (use adj in simp_all)
  then show "remdups_adj (map hd (face_groups cell_views))
        = map (\<lambda>cv. - fst cv - 1) (filter (\<lambda>cv. snd cv \<noteq> []) cell_views)"
    by (simp only: heads_of_face_groups
        marker_blocks_of_cells_with_faces [of cell_views, symmetric])
qed

theorem C4_marker_once_per_face_witness:
  "SerializeCellInfo [(3, [(7, [1]), (8, [2])]), (1, []), (5, [(9, [])])] [] 6
     = [6, 3, - 4, 7, 1, - 4, 8, 2, - 6, 9]
   \<and> map hd (face_groups [(3, [(7, [1]), (8, [2])]), (1, []), (5, [(9, [])])])
     = [- 4, - 4, - 6]
   \<and> remdups_adj (map hd (face_groups [(3, [(7, [1]), (8, [2])]), (1, []), (5, [(9, [])])]))
     = [- 4, - 6]"
  using C4_marker_once_per_face [of "[(3, [(7, [1]), (8, [2])]), (1, []), (5, [(9, [])])]" 6]
  by simp

text \<open>
  C5. A well-formed buffer is the wire format of a decodable list of views. Where two
  consecutive face groups \<open>fa\<close> and \<open>fb\<close> carry the same marker, the decoder returns one
  cell entry that holds both faces, each with its face id and its vertex ids in order, at
  the position of that cell, and the decoded cells are the cells of the list, one entry
  for this cell. The decoder's only inputs are the entries of the buffer; \<open>last_cell\<close> is
  the one thing it remembers of the markers.
\<close>

theorem C5_same_marker_one_cell:
  assumes "decodable_views (before @ [(cid, fs1 @ [fa, fb] @ fs2)] @ after)"
  shows "\<exists>out. DeSerializeCellInfo []
                 ([d, int (length before + 1 + length after)]
                  @ concat (map wire_cell_groups before)
                  @ concat (map (wire_face_group (- cid - 1)) fs1)
                  @ wire_face_group (- cid - 1) fa @ wire_face_group (- cid - 1) fb
                  @ concat (map (wire_face_group (- cid - 1)) fs2)
                  @ concat (map wire_cell_groups after))
               = Inr (out, d)
             \<and> out ! length before = (cid, fs1 @ [fa, fb] @ fs2)
             \<and> take (length before + 1 + length after) out
               = before @ [(cid, fs1 @ [fa, fb] @ fs2)] @ after"
proof -
  let ?views = "before @ [(cid, fs1 @ [fa, fb] @ fs2)] @ after"
  have "wire_buffer ?views d
        = [d, int (length before + 1 + length after)]
          @ concat (map wire_cell_groups before)
          @ concat (map (wire_face_group (- cid - 1)) fs1)
          @ wire_face_group (- cid - 1) fa @ wire_face_group (- cid - 1) fb
          @ concat (map (wire_face_group (- cid - 1)) fs2)
          @ concat (map wire_cell_groups after)"
    by (simp add: wire_buffer_def wire_cell_groups_def)
  moreover have "DeSerializeCellInfo [] (wire_buffer ?views d)
        = Inr (?views @ replicate (length ?views) empty_cell_view, d)"
    by (rule deserialize_wire [OF assms])
  moreover have "(?views @ replicate (length ?views) empty_cell_view) ! length before
        = (cid, fs1 @ [fa, fb] @ fs2)"
    by (simp add: nth_append)
  moreover have "take (length before + 1 + length after)
          (?views @ replicate (length ?views) empty_cell_view) = ?views"
    by simp
  ultimately show ?thesis by metis
qed

theorem C5_same_marker_one_cell_witness:
  "\<exists>out. DeSerializeCellInfo [] [6, 1, - 4, 7, 1, 2, - 4, 8, 5] = Inr (out, 6)
        \<and> out ! 0 = (3, [(7, [1, 2]), (8, [5])])
        \<and> take 1 out = [(3, [(7, [1, 2]), (8, [5])])]"
  using C5_same_marker_one_cell [of "[]" 3 "[]" "(7, [1, 2])" "(8, [5])" "[]" "[]" 6]
  by (simp add: decodable_views_def wire_face_group_def)

text \<open>
  C6 (counterexample). Three lists with non-negative cell ids whose cell ids the decoder
  does not return. Of two neighbours with the same cell id it returns one cell, and the
  second entry of its output has id 0. A negative vertex id \<open>-6\<close> is read as the marker
  of a cell 5 that the list does not hold. And a cell without a face writes no marker:
  its id 3 is not in the output.
\<close>

theorem C6_wire_format_counterexample:
  "DeSerializeCellInfo [] (SerializeCellInfo [(3, [(7, [1])]), (3, [(8, [2])])] [] 6)
     = Inr ([(3, [(7, [1]), (8, [2])]), (0, []), (0, [])], 6)
   \<and> DeSerializeCellInfo [] (SerializeCellInfo [(3, [(7, [- 6, 4])])] [] 6)
     = Inr ([(3, [(7, [])]), (5, [(4, [])]), (0, [])], 6)
   \<and> DeSerializeCellInfo [] (SerializeCellInfo [(3, []), (4, [(8, [2])])] [] 6)
     = Inr ([(4, [(8, [2])]), (0, []), (0, [])], 6)"
  by code_simp

text \<open>
  C6 (amended). With non-negative cell ids the buffer of \<open>SerializeCellInfo\<close> is the header
  of \<open>num_face_dofs\<close> and the number of cells followed by nothing but face groups: the
  marker \<open>-(global_cell_id)-1\<close>, which is negative and so differs from every non-negative
  vertex id, the face id, the vertex ids. \<open>DeSerializeCellInfo\<close>, whenever it returns,
  returns entry 0 as \<open>num_face_dofs\<close> and an output of at least as many cells as entry 1
  counts. When in addition every cell has a face, all vertex ids are non-negative and no
  two neighbours in the list have the same cell id, it returns, on an empty output vector
  and that buffer, the cell ids of the list in the leading entries of its output, each one
  \<open>-marker-1\<close>.
\<close>

theorem C6_wire_format:
  assumes "\<forall>cv\<in>set cell_views. 0 \<le> fst cv"
  shows "SerializeCellInfo cell_views [] num_face_dofs
         = [num_face_dofs, int (length cell_views)]
           @ concat (map (\<lambda>cv. concat (map (\<lambda>fv. [- fst cv - 1, fst fv] @ snd fv) (snd cv)))
                       cell_views)
       \<and> (\<forall>cv\<in>set cell_views. - fst cv - 1 < 0 \<and> (\<forall>x. 0 \<le> x \<longrightarrow> x \<noteq> - fst cv - 1))
       \<and> (\<forall>cvs0 fi out d. DeSerializeCellInfo cvs0 fi = Inr (out, d)
             \<longrightarrow> d = fi ! 0 \<and> 0 \<le> fi ! 1 \<and> nat (fi ! 1) \<le> length out)
       \<and> (decodable_views cell_views \<longrightarrow>
            (\<exists>out. DeSerializeCellInfo [] (SerializeCellInfo cell_views [] num_face_dofs)
                    = Inr (out, num_face_dofs)
                  \<and> map fst (take (length cell_views) out)
                    = map (\<lambda>cv. - (- fst cv - 1) - 1) cell_views))"
proof (intro conjI)
  show "SerializeCellInfo cell_views [] num_face_dofs
         = [num_face_dofs, int (length cell_views)]
           @ concat (map (\<lambda>cv. concat (map (\<lambda>fv. [- fst cv - 1, fst fv] @ snd fv) (snd cv)))
                       cell_views)"
    unfolding SerializeCellInfo_wire wire_buffer_def wire_cell_groups_def [abs_def]
      wire_face_group_def [abs_def] by simp
  show "\<forall>cv\<in>set cell_views. - fst cv - 1 < 0 \<and> (\<forall>x. 0 \<le> x \<longrightarrow> x \<noteq> - fst cv - 1)"
    using assms by auto
  show "\<forall>cvs0 fi out d. DeSerializeCellInfo cvs0 fi = Inr (out, d)
          \<longrightarrow> d = fi ! 0 \<and> 0 \<le> fi ! 1 \<and> nat (fi ! 1) \<le> length out"
    using DeSerializeCellInfo_header by blast
  show "decodable_views cell_views \<longrightarrow>
          (\<exists>out. DeSerializeCellInfo [] (SerializeCellInfo cell_views [] num_face_dofs)
                  = Inr (out, num_face_dofs)
                \<and> map fst (take (length cell_views) out)
                  = map (\<lambda>cv. - (- fst cv - 1) - 1) cell_views)"
    by (simp add: SerializeCellInfo_wire deserialize_wire)
qed

theorem C6_wire_format_witness:
  "SerializeCellInfo [(3, [(7, [1, 2]), (8, [5])]), (4, [(9, [])])] [] 6
     = [6, 2, - 4, 7, 1, 2, - 4, 8, 5, - 5, 9]
   \<and> (\<exists>out. DeSerializeCellInfo []
               (SerializeCellInfo [(3, [(7, [1, 2]), (8, [5])]), (4, [(9, [])])] [] 6)
             = Inr (out, 6)
           \<and> map fst (take 2 out) = [3, 4])"
proof -
  have "decodable_views [(3, [(7, [1, 2]), (8, [5])]), (4, [(9, [])])]"
    by (simp add: decodable_views_def)
  with C6_wire_format [of "[(3, [(7, [1, 2]), (8, [5])]), (4, [(9, [])])]" 6]
  show ?thesis by (auto simp: eval_nat_numeral)
qed

text \<open>
  C10. On the wire format of a decodable list of \<open>n\<close> cells, whose header declares \<open>n\<close>,
  and an empty output vector, the decoder returns \<open>2n\<close> cell views: the decoded cells at
  the indices \<open>0\<close> to \<open>n-1\<close> of the resized vector, and behind them the \<open>n\<close> cell views that
  \<open>push_back\<close> appended, still value-initialised.
\<close>

theorem C10_output_twice_as_long:
  assumes "decodable_views cell_views"
  shows "wire_buffer cell_views d ! 1 = int (length cell_views)
       \<and> (\<exists>out. DeSerializeCellInfo [] (wire_buffer cell_views d) = Inr (out, d)
             \<and> length out = 2 * length cell_views
             \<and> take (length cell_views) out = cell_views
             \<and> drop (length cell_views) out = replicate (length cell_views) (0, []))"
  by (simp add: deserialize_wire [OF assms] empty_cell_view_def) (simp add: wire_buffer_def)

theorem C10_output_twice_as_long_witness:
  "\<exists>out. DeSerializeCellInfo [] [6, 2, - 4, 7, 1, 2, - 4, 8, 5, - 5, 9] = Inr (out, 6)
        \<and> length out = 4
        \<and> take 2 out = [(3, [(7, [1, 2]), (8, [5])]), (4, [(9, [])])]
        \<and> drop 2 out = [(0, []), (0, [])]"
  using C10_output_twice_as_long [of "[(3, [(7, [1, 2]), (8, [5])]), (4, [(9, [])])]" 6]
  by (simp add: decodable_views_def wire_buffer_def wire_cell_groups_def wire_face_group_def
      eval_nat_numeral)

section \<open>Proofs: the run of InitializeBetaElements\<close>

lemma for_each_snoc:
  "for_each body (indices @ [i]) s = and_then (for_each body indices s) (body i)"
  by (induction indices arbitrary: s) (auto simp: and_then_def split: sum.splits)

lemma sends_frame_refl: "sends_frame s s"
  by (simp add: sends_frame_def)

lemma sends_frame_trans: "sends_frame s s' \<Longrightarrow> sends_frame s' s'' \<Longrightarrow> sends_frame s s''"
  by (simp add: sends_frame_def)

lemma sends_frame_sent:
  "sends_frame s (sent_to_successor tag_index locJ deplocI s)"
  by (simp add: sends_frame_def sent_to_successor_def)

text \<open>A send loop over a list of slots, for either choice of successors.\<close>

lemma send_loop:
  fixes s :: "'a beta_state"
  assumes body: "\<And>i s. body i s =
        (if chosen i then send_to_successor tag_index (locs i) i s else Inr s)"
    and "\<forall>i\<in>set slots. i < length (deplocI_cell_views (self s))
           \<and> i < length (deplocI_face_dof_count (self s))
           \<and> i < length (multi_face_indices s) \<and> i < length (send_requests s)"
  shows "\<exists>s'. for_each body slots s = Inr s'
           \<and> trace s' = trace s
               @ concat (map (\<lambda>i. [MPI_Isend (locs i) (101 + tag_index) i, ReleaseViews i])
                           (filter chosen slots))
           \<and> sends_frame s s'
           \<and> (\<forall>j<length (send_requests s).
                 send_requests s' ! j = (send_requests s ! j \<or> (j \<in> set slots \<and> chosen j)))"
  using assms(2)
proof (induction slots arbitrary: s)
  case Nil
  show ?case by (simp add: sends_frame_refl)
next
  case (Cons i slots)
  show ?case
  proof (cases "chosen i")
    case False
    from Cons.prems have "\<forall>i\<in>set slots. i < length (deplocI_cell_views (self s))
           \<and> i < length (deplocI_face_dof_count (self s))
           \<and> i < length (multi_face_indices s) \<and> i < length (send_requests s)"
      by simp
    from Cons.IH [OF this] obtain s' where s': "for_each body slots s = Inr s'"
      "trace s' = trace s
         @ concat (map (\<lambda>i. [MPI_Isend (locs i) (101 + tag_index) i, ReleaseViews i])
                     (filter chosen slots))"
      "sends_frame s s'"
      "\<forall>j<length (send_requests s).
          send_requests s' ! j = (send_requests s ! j \<or> (j \<in> set slots \<and> chosen j))"
      by blast
    have step: "body i s = Inr s" using False by (simp add: body)
    have "for_each body (i # slots) s = Inr s'"
      by (simp add: step s'(1))
    moreover have "trace s' = trace s
         @ concat (map (\<lambda>i. [MPI_Isend (locs i) (101 + tag_index) i, ReleaseViews i])
                     (filter chosen (i # slots)))"
      using False by (simp add: s'(2))
    moreover have "\<forall>j<length (send_requests s).
          send_requests s' ! j = (send_requests s ! j \<or> (j \<in> set (i # slots) \<and> chosen j))"
      using s'(4) False by auto
    ultimately show ?thesis using s'(3) by blast
  next
    case True
    define s1 where "s1 = sent_to_successor tag_index (locs i) i s"
    from Cons.prems True have step: "body i s = Inr s1"
      by (simp add: body send_to_successor_def s1_def)
    have fr: "sends_frame s s1" unfolding s1_def by (rule sends_frame_sent)
    have tr: "trace s1 = trace s @ [MPI_Isend (locs i) (101 + tag_index) i, ReleaseViews i]"
      by (simp add: s1_def sent_to_successor_def)
    have rq: "send_requests s1 = (send_requests s)[i := True]"
      by (simp add: s1_def sent_to_successor_def)
    from Cons.prems fr have "\<forall>i\<in>set slots. i < length (deplocI_cell_views (self s1))
           \<and> i < length (deplocI_face_dof_count (self s1))
           \<and> i < length (multi_face_indices s1) \<and> i < length (send_requests s1)"
      by (simp add: sends_frame_def)
    from Cons.IH [OF this] obtain s' where s': "for_each body slots s1 = Inr s'"
      "trace s' = trace s1
         @ concat (map (\<lambda>i. [MPI_Isend (locs i) (101 + tag_index) i, ReleaseViews i])
                     (filter chosen slots))"
      "sends_frame s1 s'"
      "\<forall>j<length (send_requests s1).
          send_requests s' ! j = (send_requests s1 ! j \<or> (j \<in> set slots \<and> chosen j))"
      by blast
    have "for_each body (i # slots) s = Inr s'"
      by (simp add: step s'(1))
    moreover have "trace s' = trace s
         @ concat (map (\<lambda>i. [MPI_Isend (locs i) (101 + tag_index) i, ReleaseViews i])
                     (filter chosen (i # slots)))"
      using True by (simp add: s'(2) tr)
    moreover have "sends_frame s s'"
      by (rule sends_frame_trans [OF fr s'(3)])
    moreover have "\<forall>j<length (send_requests s).
          send_requests s' ! j = (send_requests s ! j \<or> (j \<in> set (i # slots) \<and> chosen j))"
    proof (intro allI impI)
      fix j assume j: "j < length (send_requests s)"
      from Cons.prems have "i < length (send_requests s)" by simp
      with j have "send_requests s1 ! j = (j = i \<or> send_requests s ! j)"
        by (auto simp: rq nth_list_update)
      moreover from s'(4) j
      have "send_requests s' ! j = (send_requests s1 ! j \<or> (j \<in> set slots \<and> chosen j))"
        by (simp add: rq)
      ultimately show "send_requests s' ! j
          = (send_requests s ! j \<or> (j \<in> set (i # slots) \<and> chosen j))"
        using True by auto
    qed
    ultimately show ?thesis by blast
  qed
qed


lemma send_delayed_successors_run:
  fixes s :: "'a beta_state"
  assumes "length (location_successors spds) \<le> length (deplocI_cell_views (self s))"
    and "length (location_successors spds) \<le> length (deplocI_face_dof_count (self s))"
    and "length (multi_face_indices s) = length (location_successors spds)"
    and "length (send_requests s) = length (location_successors spds)"
  shows "\<exists>s'. send_delayed_successors spds tag_index s = Inr s'
           \<and> trace s' = trace s
               @ send_events spds tag_index (\<lambda>locJ. locJ \<in> set (delayed_location_successors spds))
           \<and> sends_frame s s'
           \<and> (\<forall>j<length (location_successors spds).
                 send_requests s' ! j
                 = (send_requests s ! j
                    \<or> location_successors spds ! j \<in> set (delayed_location_successors spds)))"
proof -
  have "\<exists>s'. for_each (send_delayed_successor spds tag_index)
               [0..<length (location_successors spds)] s = Inr s'
           \<and> trace s' = trace s
               @ concat (map (\<lambda>i. [MPI_Isend (location_successors spds ! i) (101 + tag_index) i,
                                   ReleaseViews i])
                           (filter (\<lambda>i. location_successors spds ! i
                                          \<in> set (delayed_location_successors spds))
                              [0..<length (location_successors spds)]))
           \<and> sends_frame s s'
           \<and> (\<forall>j<length (send_requests s).
                 send_requests s' ! j
                 = (send_requests s ! j
                    \<or> (j \<in> set [0..<length (location_successors spds)]
                        \<and> location_successors spds ! j
                            \<in> set (delayed_location_successors spds))))"
    by (rule send_loop) (use assms in \<open>simp_all add: send_delayed_successor_def\<close>)
  then show ?thesis
    using assms(4) by (auto simp: send_delayed_successors_def send_events_def)
qed

lemma send_successors_run:
  fixes s :: "'a beta_state"
  assumes "length (location_successors spds) \<le> length (deplocI_cell_views (self s))"
    and "length (location_successors spds) \<le> length (deplocI_face_dof_count (self s))"
    and "length (multi_face_indices s) = length (location_successors spds)"
    and "length (send_requests s) = length (location_successors spds)"
  shows "\<exists>s'. send_successors spds tag_index s = Inr s'
           \<and> trace s' = trace s
               @ send_events spds tag_index (\<lambda>locJ. locJ \<notin> set (delayed_location_successors spds))
           \<and> sends_frame s s'
           \<and> (\<forall>j<length (location_successors spds).
                 send_requests s' ! j
                 = (send_requests s ! j
                    \<or> location_successors spds ! j \<notin> set (delayed_location_successors spds)))"
proof -
  have "\<exists>s'. for_each (send_successor spds tag_index)
               [0..<length (location_successors spds)] s = Inr s'
           \<and> trace s' = trace s
               @ concat (map (\<lambda>i. [MPI_Isend (location_successors spds ! i) (101 + tag_index) i,
                                   ReleaseViews i])
                           (filter (\<lambda>i. location_successors spds ! i
                                          \<notin> set (delayed_location_successors spds))
                              [0..<length (location_successors spds)]))
           \<and> sends_frame s s'
           \<and> (\<forall>j<length (send_requests s).
                 send_requests s' ! j
                 = (send_requests s ! j
                    \<or> (j \<in> set [0..<length (location_successors spds)]
                        \<and> location_successors spds ! j
                            \<notin> set (delayed_location_successors spds))))"
    by (rule send_loop) (use assms in \<open>simp_all add: send_successor_def\<close>)
  then show ?thesis
    using assms(4) by (auto simp: send_successors_def send_events_def)
qed


text \<open>The receive loops: iteration \<open>k\<close> writes entry \<open>k\<close> of two members and nothing else.\<close>

lemma receive_delayed_loop:
  fixes s :: "'a beta_state"
  assumes "k \<le> length (delayed_prelocI_cell_views (self s))"
    and "k \<le> length (delayed_prelocI_face_dof_count (self s))"
    and "\<forall>i<k. \<exists>r. DeSerializeCellInfo (delayed_prelocI_cell_views (self s) ! i)
                      (delayed_incoming i) = Inr r"
  shows "\<exists>X Y. for_each (receive_delayed_predecessor delayed_incoming spds tag_index) [0..<k] s
             = Inr (s\<lparr>trace := trace s
                         @ concat (map (\<lambda>i. [MPI_Probe (delayed_location_dependencies spds ! i)
                                               (101 + tag_index),
                                             MPI_Recv (delayed_location_dependencies spds ! i)
                                               (101 + tag_index) (length (delayed_incoming i))])
                                     [0..<k]),
                      self := (self s)\<lparr>delayed_prelocI_cell_views := X,
                                       delayed_prelocI_face_dof_count := Y\<rparr>\<rparr>)
           \<and> length X = length (delayed_prelocI_cell_views (self s))
           \<and> length Y = length (delayed_prelocI_face_dof_count (self s))
           \<and> (\<forall>j\<ge>k. X ! j = delayed_prelocI_cell_views (self s) ! j)"
  using assms
proof (induction k)
  case 0
  have "s = s\<lparr>trace := trace s,
              self := (self s)\<lparr>delayed_prelocI_cell_views := delayed_prelocI_cell_views (self s),
                               delayed_prelocI_face_dof_count :=
                                 delayed_prelocI_face_dof_count (self s)\<rparr>\<rparr>"
    by simp
  then show ?case by (intro exI [of _ "delayed_prelocI_cell_views (self s)"]
        exI [of _ "delayed_prelocI_face_dof_count (self s)"]) simp
next
  case (Suc k)
  let ?ev = "\<lambda>i. [MPI_Probe (delayed_location_dependencies spds ! i) (101 + tag_index),
                  MPI_Recv (delayed_location_dependencies spds ! i)
                    (101 + tag_index) (length (delayed_incoming i))]"
  from Suc.prems have "k \<le> length (delayed_prelocI_cell_views (self s))"
    "k \<le> length (delayed_prelocI_face_dof_count (self s))"
    "\<forall>i<k. \<exists>r. DeSerializeCellInfo (delayed_prelocI_cell_views (self s) ! i)
                  (delayed_incoming i) = Inr r"
    by simp_all
  from Suc.IH [OF this] obtain X Y where
    run: "for_each (receive_delayed_predecessor delayed_incoming spds tag_index) [0..<k] s
          = Inr (s\<lparr>trace := trace s @ concat (map ?ev [0..<k]),
                   self := (self s)\<lparr>delayed_prelocI_cell_views := X,
                                    delayed_prelocI_face_dof_count := Y\<rparr>\<rparr>)"
    and X: "length X = length (delayed_prelocI_cell_views (self s))"
    and Y: "length Y = length (delayed_prelocI_face_dof_count (self s))"
    and keep: "\<forall>j\<ge>k. X ! j = delayed_prelocI_cell_views (self s) ! j"
    by blast
  from Suc.prems(3) obtain cvs d where
    dec: "DeSerializeCellInfo (delayed_prelocI_cell_views (self s) ! k) (delayed_incoming k)
          = Inr (cvs, d)"
    by (metis lessI surj_pair)
  from keep have Xk: "X ! k = delayed_prelocI_cell_views (self s) ! k" by simp
  from Suc.prems X Y have range: "k < length X" "k < length Y" by simp_all
  have "for_each (receive_delayed_predecessor delayed_incoming spds tag_index) [0..<Suc k] s
        = Inr (s\<lparr>trace := trace s @ concat (map ?ev [0..<Suc k]),
                 self := (self s)\<lparr>delayed_prelocI_cell_views := X[k := cvs],
                                  delayed_prelocI_face_dof_count := Y[k := d]\<rparr>\<rparr>)"
    using range
    by (simp add: for_each_snoc run and_then_def receive_delayed_predecessor_def Xk dec)
  moreover have "\<forall>j\<ge>Suc k. X[k := cvs] ! j = delayed_prelocI_cell_views (self s) ! j"
    using keep by simp
  ultimately show ?case using X Y by (intro exI [of _ "X[k := cvs]"] exI [of _ "Y[k := d]"]) simp
qed

lemma receive_loop:
  fixes s :: "'a beta_state"
  assumes "k \<le> length (prelocI_cell_views (self s))"
    and "k \<le> length (prelocI_face_dof_count (self s))"
    and "\<forall>i<k. \<exists>r. DeSerializeCellInfo (prelocI_cell_views (self s) ! i) (incoming i) = Inr r"
  shows "\<exists>X Y. for_each (receive_predecessor incoming spds tag_index) [0..<k] s
             = Inr (s\<lparr>trace := trace s
                         @ concat (map (\<lambda>i. [MPI_Probe (location_dependencies spds ! i)
                                               (101 + tag_index),
                                             MPI_Recv (location_dependencies spds ! i)
                                               (101 + tag_index) (length (incoming i))])
                                     [0..<k]),
                      self := (self s)\<lparr>prelocI_cell_views := X,
                                       prelocI_face_dof_count := Y\<rparr>\<rparr>)
           \<and> length X = length (prelocI_cell_views (self s))
           \<and> length Y = length (prelocI_face_dof_count (self s))
           \<and> (\<forall>j\<ge>k. X ! j = prelocI_cell_views (self s) ! j)"
  using assms
proof (induction k)
  case 0
  have "s = s\<lparr>trace := trace s,
              self := (self s)\<lparr>prelocI_cell_views := prelocI_cell_views (self s),
                               prelocI_face_dof_count := prelocI_face_dof_count (self s)\<rparr>\<rparr>"
    by simp
  then show ?case by (intro exI [of _ "prelocI_cell_views (self s)"]
        exI [of _ "prelocI_face_dof_count (self s)"]) simp
next
  case (Suc k)
  let ?ev = "\<lambda>i. [MPI_Probe (location_dependencies spds ! i) (101 + tag_index),
                  MPI_Recv (location_dependencies spds ! i)
                    (101 + tag_index) (length (incoming i))]"
  from Suc.prems have "k \<le> length (prelocI_cell_views (self s))"
    "k \<le> length (prelocI_face_dof_count (self s))"
    "\<forall>i<k. \<exists>r. DeSerializeCellInfo (prelocI_cell_views (self s) ! i) (incoming i) = Inr r"
    by simp_all
  from Suc.IH [OF this] obtain X Y where
    run: "for_each (receive_predecessor incoming spds tag_index) [0..<k] s
          = Inr (s\<lparr>trace := trace s @ concat (map ?ev [0..<k]),
                   self := (self s)\<lparr>prelocI_cell_views := X,
                                    prelocI_face_dof_count := Y\<rparr>\<rparr>)"
    and X: "length X = length (prelocI_cell_views (self s))"
    and Y: "length Y = length (prelocI_face_dof_count (self s))"
    and keep: "\<forall>j\<ge>k. X ! j = prelocI_cell_views (self s) ! j"
    by blast
  from Suc.prems(3) obtain cvs d where
    dec: "DeSerializeCellInfo (prelocI_cell_views (self s) ! k) (incoming k) = Inr (cvs, d)"
    by (metis lessI surj_pair)
  from keep have Xk: "X ! k = prelocI_cell_views (self s) ! k" by simp
  from Suc.prems X Y have range: "k < length X" "k < length Y" by simp_all
  have "for_each (receive_predecessor incoming spds tag_index) [0..<Suc k] s
        = Inr (s\<lparr>trace := trace s @ concat (map ?ev [0..<Suc k]),
                 self := (self s)\<lparr>prelocI_cell_views := X[k := cvs],
                                  prelocI_face_dof_count := Y[k := d]\<rparr>\<rparr>)"
    using range
    by (simp add: for_each_snoc run and_then_def receive_predecessor_def Xk dec)
  moreover have "\<forall>j\<ge>Suc k. X[k := cvs] ! j = prelocI_cell_views (self s) ! j"
    using keep by simp
  ultimately show ?case using X Y by (intro exI [of _ "X[k := cvs]"] exI [of _ "Y[k := d]"]) simp
qed

lemma length_resize [simp]: "length (resize xs n x) = n"
  by (simp add: resize_def)

lemma receive_delayed_predecessors_run:
  fixes s :: "'a beta_state"
  assumes "\<forall>i<length (delayed_location_dependencies spds).
             \<exists>r. DeSerializeCellInfo
                    (resize (delayed_prelocI_cell_views (self s))
                       (length (delayed_location_dependencies spds)) [] ! i)
                    (delayed_incoming i) = Inr r"
  shows "\<exists>X Y. receive_delayed_predecessors delayed_incoming spds tag_index s
             = Inr (s\<lparr>trace := trace s
                         @ receive_events (delayed_location_dependencies spds)
                             delayed_incoming tag_index,
                      self := (self s)\<lparr>delayed_prelocI_cell_views := X,
                                       delayed_prelocI_face_dof_count := Y\<rparr>\<rparr>)"
proof -
  let ?n = "length (delayed_location_dependencies spds)"
  let ?s = "s\<lparr>self := (self s)
            \<lparr>delayed_prelocI_cell_views := resize (delayed_prelocI_cell_views (self s)) ?n [],
             delayed_prelocI_face_dof_count :=
               resize (delayed_prelocI_face_dof_count (self s)) ?n 0\<rparr>\<rparr>"
  have "\<exists>X Y. for_each (receive_delayed_predecessor delayed_incoming spds tag_index) [0..<?n] ?s
             = Inr (?s\<lparr>trace := trace ?s
                         @ concat (map (\<lambda>i. [MPI_Probe (delayed_location_dependencies spds ! i)
                                               (101 + tag_index),
                                             MPI_Recv (delayed_location_dependencies spds ! i)
                                               (101 + tag_index) (length (delayed_incoming i))])
                                     [0..<?n]),
                      self := (self ?s)\<lparr>delayed_prelocI_cell_views := X,
                                       delayed_prelocI_face_dof_count := Y\<rparr>\<rparr>)
           \<and> length X = length (delayed_prelocI_cell_views (self ?s))
           \<and> length Y = length (delayed_prelocI_face_dof_count (self ?s))
           \<and> (\<forall>j\<ge>?n. X ! j = delayed_prelocI_cell_views (self ?s) ! j)"
    by (rule receive_delayed_loop) (use assms in simp_all)
  then show ?thesis
    by (auto simp: receive_delayed_predecessors_def receive_events_def)
qed

lemma receive_predecessors_run:
  fixes s :: "'a beta_state"
  assumes "\<forall>i<length (location_dependencies spds).
             \<exists>r. DeSerializeCellInfo
                    (resize (prelocI_cell_views (self s))
                       (length (location_dependencies spds)) [] ! i)
                    (incoming i) = Inr r"
  shows "\<exists>X Y. receive_predecessors incoming spds tag_index s
             = Inr (s\<lparr>trace := trace s
                         @ receive_events (location_dependencies spds) incoming tag_index,
                      self := (self s)\<lparr>prelocI_cell_views := X,
                                       prelocI_face_dof_count := Y\<rparr>\<rparr>)"
proof -
  let ?n = "length (location_dependencies spds)"
  let ?s = "s\<lparr>self := (self s)
            \<lparr>prelocI_cell_views := resize (prelocI_cell_views (self s)) ?n [],
             prelocI_face_dof_count := resize (prelocI_face_dof_count (self s)) ?n 0\<rparr>\<rparr>"
  have "\<exists>X Y. for_each (receive_predecessor incoming spds tag_index) [0..<?n] ?s
             = Inr (?s\<lparr>trace := trace ?s
                         @ concat (map (\<lambda>i. [MPI_Probe (location_dependencies spds ! i)
                                               (101 + tag_index),
                                             MPI_Recv (location_dependencies spds ! i)
                                               (101 + tag_index) (length (incoming i))])
                                     [0..<?n]),
                      self := (self ?s)\<lparr>prelocI_cell_views := X,
                                       prelocI_face_dof_count := Y\<rparr>\<rparr>)
           \<and> length X = length (prelocI_cell_views (self ?s))
           \<and> length Y = length (prelocI_face_dof_count (self ?s))
           \<and> (\<forall>j\<ge>?n. X ! j = prelocI_cell_views (self ?s) ! j)"
    by (rule receive_loop) (use assms in simp_all)
  then show ?thesis
    by (auto simp: receive_predecessors_def receive_events_def)
qed

text \<open>The wait loop needs a started send in every slot.\<close>

lemma wait_loop:
  fixes s :: "'a beta_state"
  assumes "k \<le> length (send_requests s)" and "\<forall>i<k. send_requests s ! i"
  shows "\<exists>R. for_each wait_for_send [0..<k] s
           = Inr (s\<lparr>send_requests := R, trace := trace s @ map MPI_Wait [0..<k]\<rparr>)
         \<and> length R = length (send_requests s)
         \<and> (\<forall>j\<ge>k. R ! j = send_requests s ! j)"
  using assms
proof (induction k)
  case 0
  have "s = s\<lparr>send_requests := send_requests s, trace := trace s\<rparr>" by simp
  then show ?case by (intro exI [of _ "send_requests s"]) simp
next
  case (Suc k)
  from Suc.prems have "k \<le> length (send_requests s)" "\<forall>i<k. send_requests s ! i"
    by simp_all
  from Suc.IH [OF this] obtain R where
    run: "for_each wait_for_send [0..<k] s
          = Inr (s\<lparr>send_requests := R, trace := trace s @ map MPI_Wait [0..<k]\<rparr>)"
    and R: "length R = length (send_requests s)"
    and keep: "\<forall>j\<ge>k. R ! j = send_requests s ! j"
    by blast
  from keep Suc.prems have Rk: "R ! k" by simp
  from Suc.prems R have range: "k < length R" by simp
  have "for_each wait_for_send [0..<Suc k] s
        = Inr (s\<lparr>send_requests := R[k := False], trace := trace s @ map MPI_Wait [0..<Suc k]\<rparr>)"
    using range Rk by (simp add: for_each_snoc run and_then_def wait_for_send_def)
  moreover have "\<forall>j\<ge>Suc k. R[k := False] ! j = send_requests s ! j"
    using keep by simp
  ultimately show ?case using R by (intro exI [of _ "R[k := False]"]) simp
qed

lemma verify_sends_completed_run:
  fixes s :: "'a beta_state"
  assumes "length (send_requests s) = length (location_successors spds)"
    and "\<forall>i<length (location_successors spds). send_requests s ! i"
  shows "\<exists>R. verify_sends_completed spds s
           = Inr (s\<lparr>send_requests := R, multi_face_indices := [],
                    trace := trace s @ wait_events (length (location_successors spds))\<rparr>)"
proof -
  have "\<exists>R. for_each wait_for_send [0..<length (location_successors spds)] s
           = Inr (s\<lparr>send_requests := R,
                    trace := trace s @ map MPI_Wait [0..<length (location_successors spds)]\<rparr>)
         \<and> length R = length (send_requests s)
         \<and> (\<forall>j\<ge>length (location_successors spds). R ! j = send_requests s ! j)"
    by (rule wait_loop) (use assms in simp_all)
  then show ?thesis
    by (auto simp: verify_sends_completed_def and_then_def wait_events_def)
qed


text \<open>The whole run: it has a result, and these are its calls.\<close>

lemma InitializeBetaElements_run:
  fixes fluds :: "'a FLUDS_scheme"
  assumes "run_defined delayed_incoming incoming spds fluds"
  shows "\<exists>fl. InitializeBetaElements is_newbase NonLocalIncidentMapping delayed_incoming
                incoming spds tag_index fluds
          = Inr (clear_unnecessary_data fl,
                 send_events spds tag_index
                   (\<lambda>locJ. locJ \<in> set (delayed_location_successors spds))
                 @ receive_events (delayed_location_dependencies spds) delayed_incoming
                     tag_index
                 @ receive_events (location_dependencies spds) incoming tag_index
                 @ send_events spds tag_index
                     (\<lambda>locJ. locJ \<notin> set (delayed_location_successors spds))
                 @ wait_events (length (location_successors spds)))"
proof -
  let ?n = "length (location_successors spds)"
  let ?D = "send_events spds tag_index (\<lambda>locJ. locJ \<in> set (delayed_location_successors spds))"
  let ?R1 = "receive_events (delayed_location_dependencies spds) delayed_incoming tag_index"
  let ?R2 = "receive_events (location_dependencies spds) incoming tag_index"
  let ?O = "send_events spds tag_index (\<lambda>locJ. locJ \<notin> set (delayed_location_successors spds))"
  define s0 :: "'a beta_state" where
    "s0 = \<lparr>self = fluds, send_requests = replicate ?n False,
           multi_face_indices = replicate ?n [], trace = []\<rparr>"
  have Inr_if: "\<exists>r. x = Inr r" if "\<not> isl x" for x :: "error + (CompactCellView list \<times> int)"
    using that by (cases x) simp_all
  from assms have len: "?n \<le> length (deplocI_cell_views fluds)"
    "?n \<le> length (deplocI_face_dof_count fluds)"
    by (simp_all add: run_defined_def)
  have dec1: "\<forall>i<length (delayed_location_dependencies spds).
          \<exists>r. DeSerializeCellInfo
                 (resize (delayed_prelocI_cell_views fluds)
                    (length (delayed_location_dependencies spds)) [] ! i)
                 (delayed_incoming i) = Inr r"
  proof (intro allI impI)
    fix i assume "i < length (delayed_location_dependencies spds)"
    with assms have "\<not> isl (DeSerializeCellInfo
                 (resize (delayed_prelocI_cell_views fluds)
                    (length (delayed_location_dependencies spds)) [] ! i)
                 (delayed_incoming i))"
      by (simp add: run_defined_def)
    then show "\<exists>r. DeSerializeCellInfo
                 (resize (delayed_prelocI_cell_views fluds)
                    (length (delayed_location_dependencies spds)) [] ! i)
                 (delayed_incoming i) = Inr r"
      by (rule Inr_if)
  qed
  have dec2: "\<forall>i<length (location_dependencies spds).
          \<exists>r. DeSerializeCellInfo
                 (resize (prelocI_cell_views fluds) (length (location_dependencies spds)) [] ! i)
                 (incoming i) = Inr r"
  proof (intro allI impI)
    fix i assume "i < length (location_dependencies spds)"
    with assms have "\<not> isl (DeSerializeCellInfo
                 (resize (prelocI_cell_views fluds) (length (location_dependencies spds)) [] ! i)
                 (incoming i))"
      by (simp add: run_defined_def)
    then show "\<exists>r. DeSerializeCellInfo
                 (resize (prelocI_cell_views fluds) (length (location_dependencies spds)) [] ! i)
                 (incoming i) = Inr r"
      by (rule Inr_if)
  qed
  have "\<exists>s'. send_delayed_successors spds tag_index s0 = Inr s'
           \<and> trace s' = trace s0 @ ?D \<and> sends_frame s0 s'
           \<and> (\<forall>j<?n. send_requests s' ! j
                 = (send_requests s0 ! j
                    \<or> location_successors spds ! j \<in> set (delayed_location_successors spds)))"
    by (rule send_delayed_successors_run) (use len in \<open>simp_all add: s0_def\<close>)
  then obtain s1 where p1: "send_delayed_successors spds tag_index s0 = Inr s1"
    and t1: "trace s1 = ?D" and f1: "sends_frame s0 s1"
    and r1: "\<forall>j<?n. send_requests s1 ! j
               = (location_successors spds ! j \<in> set (delayed_location_successors spds))"
    by (auto simp: s0_def)
  from f1 have same1: "delayed_prelocI_cell_views (self s1) = delayed_prelocI_cell_views fluds"
    "prelocI_cell_views (self s1) = prelocI_cell_views fluds"
    "length (deplocI_cell_views (self s1)) = length (deplocI_cell_views fluds)"
    "deplocI_face_dof_count (self s1) = deplocI_face_dof_count fluds"
    "length (multi_face_indices s1) = ?n" "length (send_requests s1) = ?n"
    by (simp_all add: sends_frame_def s0_def)
  have "\<exists>X Y. receive_delayed_predecessors delayed_incoming spds tag_index s1
             = Inr (s1\<lparr>trace := trace s1 @ ?R1,
                       self := (self s1)\<lparr>delayed_prelocI_cell_views := X,
                                         delayed_prelocI_face_dof_count := Y\<rparr>\<rparr>)"
    by (rule receive_delayed_predecessors_run) (use dec1 in \<open>simp add: same1\<close>)
  then obtain X1 Y1 where
    p2: "receive_delayed_predecessors delayed_incoming spds tag_index s1
         = Inr (s1\<lparr>trace := trace s1 @ ?R1,
                   self := (self s1)\<lparr>delayed_prelocI_cell_views := X1,
                                     delayed_prelocI_face_dof_count := Y1\<rparr>\<rparr>)"
    by blast
  define s2 where "s2 = s1\<lparr>trace := trace s1 @ ?R1,
                   self := (self s1)\<lparr>delayed_prelocI_cell_views := X1,
                                     delayed_prelocI_face_dof_count := Y1\<rparr>\<rparr>"
  have "\<exists>X Y. receive_predecessors incoming spds tag_index s2
             = Inr (s2\<lparr>trace := trace s2 @ ?R2,
                       self := (self s2)\<lparr>prelocI_cell_views := X,
                                         prelocI_face_dof_count := Y\<rparr>\<rparr>)"
    by (rule receive_predecessors_run) (use dec2 in \<open>simp add: same1 s2_def\<close>)
  then obtain X2 Y2 where
    p3: "receive_predecessors incoming spds tag_index s2
         = Inr (s2\<lparr>trace := trace s2 @ ?R2,
                   self := (self s2)\<lparr>prelocI_cell_views := X2,
                                     prelocI_face_dof_count := Y2\<rparr>\<rparr>)"
    by blast
  define s3 where "s3 = s2\<lparr>trace := trace s2 @ ?R2,
                   self := (self s2)\<lparr>prelocI_cell_views := X2,
                                     prelocI_face_dof_count := Y2\<rparr>\<rparr>"
  have t3: "trace s3 = ?D @ ?R1 @ ?R2"
    and r3: "send_requests s3 = send_requests s1"
    by (simp_all add: s3_def s2_def t1)
  have "\<exists>s'. send_successors spds tag_index s3 = Inr s'
           \<and> trace s' = trace s3 @ ?O \<and> sends_frame s3 s'
           \<and> (\<forall>j<?n. send_requests s' ! j
                 = (send_requests s3 ! j
                    \<or> location_successors spds ! j \<notin> set (delayed_location_successors spds)))"
    by (rule send_successors_run) (use len in \<open>simp_all add: s3_def s2_def same1\<close>)
  then obtain s4 where p4: "send_successors spds tag_index s3 = Inr s4"
    and t4: "trace s4 = ?D @ ?R1 @ ?R2 @ ?O" and f4: "sends_frame s3 s4"
    and r4: "\<forall>j<?n. send_requests s4 ! j"
    using r1 by (auto simp: t3 r3)
  from f4 have l4: "length (send_requests s4) = ?n"
    by (simp add: sends_frame_def r3 same1)
  from verify_sends_completed_run [OF l4 r4] obtain R where
    p5: "verify_sends_completed spds s4
         = Inr (s4\<lparr>send_requests := R, multi_face_indices := [],
                   trace := trace s4 @ wait_events ?n\<rparr>)"
    by blast
  have "InitializeBetaElements is_newbase NonLocalIncidentMapping delayed_incoming incoming
          spds tag_index fluds
        = Inr (clear_unnecessary_data
                 (nonlocal_face_mappings is_newbase NonLocalIncidentMapping spds (self s4)),
               ?D @ ?R1 @ ?R2 @ ?O @ wait_events ?n)"
    unfolding InitializeBetaElements_def
    using p1 p2 p3 p4 p5
    by (simp add: and_then_def s0_def [symmetric] s2_def [symmetric] s3_def [symmetric] t4)
  then show ?thesis by blast
qed

section \<open>Proofs: counting and pairing the calls\<close>

lemma sends_to_append [simp]: "sends_to locJ (xs @ ys) = sends_to locJ xs + sends_to locJ ys"
  by (simp add: sends_to_def)

lemma sends_to_receive_events [simp]: "sends_to locJ (receive_events sources incoming tag_index) = 0"
proof -
  have "filter (is_send_to locJ)
          (concat (map (\<lambda>prelocI. [MPI_Probe (sources ! prelocI) (101 + tag_index),
                                    MPI_Recv (sources ! prelocI) (101 + tag_index)
                                      (length (incoming prelocI))]) slots)) = []" for slots
    by (induction slots) simp_all
  then show ?thesis by (simp add: sends_to_def receive_events_def)
qed

lemma sends_to_wait_events [simp]: "sends_to locJ (wait_events n) = 0"
proof -
  have "filter (is_send_to locJ) (map MPI_Wait slots) = []" for slots
    by (induction slots) simp_all
  then show ?thesis by (simp add: sends_to_def wait_events_def)
qed

lemma sends_to_pairs:
  "length (filter (is_send_to locJ)
             (concat (map (\<lambda>i. [MPI_Isend (locs i) tag i, ReleaseViews i]) slots)))
   = length (filter (\<lambda>i. locs i = locJ) slots)"
  by (induction slots) simp_all

lemma count_distinct_positions:
  assumes "distinct xs"
  shows "length (filter (\<lambda>i. P (xs ! i) \<and> xs ! i = x) [0..<length xs])
         = (if x \<in> set xs \<and> P x then 1 else 0)"
proof -
  have "length (filter (\<lambda>i. P (xs ! i) \<and> xs ! i = x) [0..<length xs])
        = length (filter ((\<lambda>y. P y \<and> y = x) \<circ> (\<lambda>i. xs ! i)) [0..<length xs])"
    by (simp add: comp_def)
  also have "\<dots> = length (filter (\<lambda>y. P y \<and> y = x) (map (\<lambda>i. xs ! i) [0..<length xs]))"
    by (simp add: filter_map)
  also have "\<dots> = length (filter (\<lambda>y. P y \<and> y = x) xs)"
    by (simp add: map_nth)
  also have "\<dots> = card ({y. P y \<and> y = x} \<inter> set xs)"
    using assms by (simp add: distinct_length_filter)
  also have "{y. P y \<and> y = x} \<inter> set xs = (if x \<in> set xs \<and> P x then {x} else {})"
    by auto
  finally show ?thesis by simp
qed

lemma sends_to_send_events:
  assumes "distinct (location_successors spds)"
  shows "sends_to locJ (send_events spds tag_index chosen)
         = (if locJ \<in> set (location_successors spds) \<and> chosen locJ then 1 else 0)"
proof -
  have "sends_to locJ (send_events spds tag_index chosen)
        = length (filter (\<lambda>i. location_successors spds ! i = locJ)
                    (filter (\<lambda>i. chosen (location_successors spds ! i))
                       [0..<length (location_successors spds)]))"
    unfolding sends_to_def send_events_def by (rule sends_to_pairs)
  also have "\<dots> = length (filter (\<lambda>i. chosen (location_successors spds ! i)
                                       \<and> location_successors spds ! i = locJ)
                             [0..<length (location_successors spds)])"
    by (simp add: conj_commute)
  finally show ?thesis
    by (simp only: count_distinct_positions [OF assms])
qed

lemma releases_follow_sends_append:
  "releases_follow_sends xs \<Longrightarrow> releases_follow_sends ys \<Longrightarrow> releases_follow_sends (xs @ ys)"
  by (induction xs rule: releases_follow_sends.induct)
    (auto split: list.splits event.splits)

lemma releases_follow_send_events: "releases_follow_sends (send_events spds tag_index chosen)"
proof -
  have "releases_follow_sends
          (concat (map (\<lambda>i. [MPI_Isend (locs i) tag i, ReleaseViews i]) slots))"
    for locs tag slots
    by (induction slots) simp_all
  then show ?thesis by (simp add: send_events_def)
qed

lemma releases_follow_receive_events:
  "releases_follow_sends (receive_events sources incoming tag_index)"
proof -
  have "releases_follow_sends
          (concat (map (\<lambda>prelocI. [MPI_Probe (sources ! prelocI) (101 + tag_index),
                                    MPI_Recv (sources ! prelocI) (101 + tag_index)
                                      (length (incoming prelocI))]) slots))" for slots
    by (induction slots) simp_all
  then show ?thesis by (simp add: receive_events_def)
qed

lemma releases_follow_wait_events: "releases_follow_sends (wait_events n)"
proof -
  have "releases_follow_sends (map MPI_Wait slots @ [ReleaseSendBuffers])" for slots
    by (induction slots) simp_all
  then show ?thesis by (simp add: wait_events_def)
qed


section \<open>Claims about InitializeBetaElements\<close>

lemma example_run_defined:
  "run_defined (\<lambda>prelocI. [6, 1, - 4, 7, 1]) (\<lambda>prelocI. [5, 0]) example_spds example_fluds"
proof -
  have "DeSerializeCellInfo [] [6, 1, - 4, 7, 1] = Inr ([(3, [(7, [1])]), (0, [])], 6)"
    and "DeSerializeCellInfo [] [5, 0] = Inr ([], 5)"
    by code_simp+
  then show ?thesis
    by (simp add: run_defined_def example_spds_def example_fluds_def resize_def)
qed

text \<open>
  C2. A run without undefined behaviour returns, and the calls it has made are, in this
  order: the sends to the successors found in \<open>delayed_location_successors\<close>; a probe and a
  receive for every delayed predecessor; a probe and a receive for every predecessor, in
  the order of \<open>location_dependencies\<close>; the sends to the successors not found in
  \<open>delayed_location_successors\<close>; the waits for the requests of all slots, and only then
  the release of the transfer buffers. \<open>MPI_Isend\<close> does not block, \<open>MPI_Probe\<close>,
  \<open>MPI_Recv\<close> and \<open>MPI_Wait\<close> do.
\<close>

theorem C2_phases_in_order:
  fixes fluds :: "'a FLUDS_scheme"
  assumes "run_defined delayed_incoming incoming spds fluds"
  shows "\<exists>fluds'. InitializeBetaElements is_newbase NonLocalIncidentMapping delayed_incoming
                    incoming spds tag_index fluds
          = Inr (fluds',
                 send_events spds tag_index
                   (\<lambda>locJ. locJ \<in> set (delayed_location_successors spds))
                 @ receive_events (delayed_location_dependencies spds) delayed_incoming
                     tag_index
                 @ receive_events (location_dependencies spds) incoming tag_index
                 @ send_events spds tag_index
                     (\<lambda>locJ. locJ \<notin> set (delayed_location_successors spds))
                 @ wait_events (length (location_successors spds)))"
  using InitializeBetaElements_run [OF assms] by blast

theorem C2_phases_in_order_witness:
  "\<exists>fluds'. InitializeBetaElements (\<lambda>cell_g_index. cell_g_index = 0)
              (\<lambda>spds cell_g_index fl. fl\<lparr>prelocI_face_dof_count := [cell_g_index]\<rparr>)
              (\<lambda>prelocI. [6, 1, - 4, 7, 1]) (\<lambda>prelocI. [5, 0]) example_spds 0 example_fluds
     = Inr (fluds',
            [MPI_Isend 2 101 1, ReleaseViews 1,
             MPI_Probe 4 101, MPI_Recv 4 101 5,
             MPI_Probe 3 101, MPI_Recv 3 101 2,
             MPI_Isend 1 101 0, ReleaseViews 0,
             MPI_Wait 0, MPI_Wait 1, ReleaseSendBuffers])"
  using C2_phases_in_order [OF example_run_defined, of "\<lambda>cell_g_index. cell_g_index = 0"
      "\<lambda>spds cell_g_index fl. fl\<lparr>prelocI_face_dof_count := [cell_g_index]\<rparr>" 0]
  by (simp add: send_events_def receive_events_def wait_events_def example_spds_def
      eval_nat_numeral)

text \<open>
  C8. With distinct processes in \<open>location_successors\<close>, the calls of a run hold exactly
  one send to every successor process: for a successor found in
  \<open>delayed_location_successors\<close> it is among the sends of the first loop and the fourth
  loop has none, for any other successor the first loop has none and it is among the
  sends of the fourth loop. A process that is no successor is not sent to.
\<close>

theorem C8_one_send_per_successor:
  fixes fluds :: "'a FLUDS_scheme"
  assumes "run_defined delayed_incoming incoming spds fluds"
    and "distinct (location_successors spds)"
  shows "\<exists>fluds'. InitializeBetaElements is_newbase NonLocalIncidentMapping delayed_incoming
                    incoming spds tag_index fluds
          = Inr (fluds',
                 send_events spds tag_index
                   (\<lambda>locJ. locJ \<in> set (delayed_location_successors spds))
                 @ receive_events (delayed_location_dependencies spds) delayed_incoming
                     tag_index
                 @ receive_events (location_dependencies spds) incoming tag_index
                 @ send_events spds tag_index
                     (\<lambda>locJ. locJ \<notin> set (delayed_location_successors spds))
                 @ wait_events (length (location_successors spds)))
        \<and> (\<forall>locJ\<in>set (location_successors spds).
              sends_to locJ
                (send_events spds tag_index
                   (\<lambda>locJ. locJ \<in> set (delayed_location_successors spds)))
              = (if locJ \<in> set (delayed_location_successors spds) then 1 else 0)
            \<and> sends_to locJ
                (send_events spds tag_index
                   (\<lambda>locJ. locJ \<notin> set (delayed_location_successors spds)))
              = (if locJ \<in> set (delayed_location_successors spds) then 0 else 1)
            \<and> sends_to locJ
                (send_events spds tag_index
                   (\<lambda>locJ. locJ \<in> set (delayed_location_successors spds))
                 @ receive_events (delayed_location_dependencies spds) delayed_incoming
                     tag_index
                 @ receive_events (location_dependencies spds) incoming tag_index
                 @ send_events spds tag_index
                     (\<lambda>locJ. locJ \<notin> set (delayed_location_successors spds))
                 @ wait_events (length (location_successors spds)))
              = 1)
        \<and> (\<forall>locJ. locJ \<notin> set (location_successors spds) \<longrightarrow>
              sends_to locJ
                (send_events spds tag_index
                   (\<lambda>locJ. locJ \<in> set (delayed_location_successors spds))
                 @ receive_events (delayed_location_dependencies spds) delayed_incoming
                     tag_index
                 @ receive_events (location_dependencies spds) incoming tag_index
                 @ send_events spds tag_index
                     (\<lambda>locJ. locJ \<notin> set (delayed_location_successors spds))
                 @ wait_events (length (location_successors spds)))
              = 0)"
proof -
  from InitializeBetaElements_run [OF assms(1)] obtain fl where
    "InitializeBetaElements is_newbase NonLocalIncidentMapping delayed_incoming
       incoming spds tag_index fluds
     = Inr (clear_unnecessary_data fl,
            send_events spds tag_index
              (\<lambda>locJ. locJ \<in> set (delayed_location_successors spds))
            @ receive_events (delayed_location_dependencies spds) delayed_incoming
                tag_index
            @ receive_events (location_dependencies spds) incoming tag_index
            @ send_events spds tag_index
                (\<lambda>locJ. locJ \<notin> set (delayed_location_successors spds))
            @ wait_events (length (location_successors spds)))"
    by blast
  then show ?thesis
    by (simp add: sends_to_send_events [OF assms(2)])
qed

theorem C8_one_send_per_successor_witness:
  "sends_to 1 [MPI_Isend 2 101 1, ReleaseViews 1] = 0
   \<and> sends_to 1 [MPI_Isend 1 101 0, ReleaseViews 0] = 1
   \<and> sends_to 2 [MPI_Isend 2 101 1, ReleaseViews 1] = 1
   \<and> sends_to 2 [MPI_Isend 1 101 0, ReleaseViews 0] = 0
   \<and> (\<exists>fluds'. InitializeBetaElements (\<lambda>cell_g_index. cell_g_index = 0)
              (\<lambda>spds cell_g_index fl. fl\<lparr>prelocI_face_dof_count := [cell_g_index]\<rparr>)
              (\<lambda>prelocI. [6, 1, - 4, 7, 1]) (\<lambda>prelocI. [5, 0]) example_spds 0 example_fluds
     = Inr (fluds',
            [MPI_Isend 2 101 1, ReleaseViews 1]
            @ [MPI_Probe 4 101, MPI_Recv 4 101 5]
            @ [MPI_Probe 3 101, MPI_Recv 3 101 2]
            @ [MPI_Isend 1 101 0, ReleaseViews 0]
            @ [MPI_Wait 0, MPI_Wait 1, ReleaseSendBuffers]))"
proof -
  have "distinct (location_successors example_spds)"
    by (simp add: example_spds_def)
  from C8_one_send_per_successor [OF example_run_defined this,
      of "\<lambda>cell_g_index. cell_g_index = 0"
      "\<lambda>spds cell_g_index fl. fl\<lparr>prelocI_face_dof_count := [cell_g_index]\<rparr>" 0]
  show ?thesis
    by (simp add: send_events_def receive_events_def wait_events_def example_spds_def
        sends_to_def eval_nat_numeral)
qed

text \<open>
  C9. When a run returns, \<open>deplocI_cell_views\<close>, \<open>prelocI_cell_views\<close> and
  \<open>delayed_prelocI_cell_views\<close> of the FLUDS object are empty vectors, whatever
  \<open>NonLocalIncidentMapping\<close> does. In the calls of the run every send is followed at once
  by the release of the views of its slot, before the loop goes on to the next successor;
  and the step of the loop that sends to a successor leaves the serialized views in the
  transfer buffer of the slot, the views of the slot empty and the views of the other
  slots as they were. The capacity of a vector is not part of the model: \<open>clear\<close> and
  \<open>shrink_to_fit\<close> together are the step that leaves the empty list.
\<close>

theorem C9_views_released:
  fixes fluds :: "'a FLUDS_scheme"
  assumes "run_defined delayed_incoming incoming spds fluds"
  shows "\<exists>fluds' calls.
           InitializeBetaElements is_newbase NonLocalIncidentMapping delayed_incoming
             incoming spds tag_index fluds = Inr (fluds', calls)
         \<and> deplocI_cell_views fluds' = [] \<and> prelocI_cell_views fluds' = []
         \<and> delayed_prelocI_cell_views fluds' = []
         \<and> releases_follow_sends calls
         \<and> (\<forall>(s::'a beta_state) locJ deplocI s'.
              send_to_successor tag_index locJ deplocI s = Inr s' \<longrightarrow>
                multi_face_indices s' ! deplocI
                = SerializeCellInfo (deplocI_cell_views (self s) ! deplocI)
                    (multi_face_indices s ! deplocI)
                    (deplocI_face_dof_count (self s) ! deplocI)
              \<and> deplocI_cell_views (self s') ! deplocI = []
              \<and> (\<forall>j. j \<noteq> deplocI \<longrightarrow>
                    deplocI_cell_views (self s') ! j = deplocI_cell_views (self s) ! j))"
proof -
  from InitializeBetaElements_run [OF assms] obtain fl where
    run: "InitializeBetaElements is_newbase NonLocalIncidentMapping delayed_incoming
            incoming spds tag_index fluds
          = Inr (clear_unnecessary_data fl,
                 send_events spds tag_index
                   (\<lambda>locJ. locJ \<in> set (delayed_location_successors spds))
                 @ receive_events (delayed_location_dependencies spds) delayed_incoming
                     tag_index
                 @ receive_events (location_dependencies spds) incoming tag_index
                 @ send_events spds tag_index
                     (\<lambda>locJ. locJ \<notin> set (delayed_location_successors spds))
                 @ wait_events (length (location_successors spds)))"
    by blast
  have pairs: "releases_follow_sends
         (send_events spds tag_index
            (\<lambda>locJ. locJ \<in> set (delayed_location_successors spds))
          @ receive_events (delayed_location_dependencies spds) delayed_incoming tag_index
          @ receive_events (location_dependencies spds) incoming tag_index
          @ send_events spds tag_index
              (\<lambda>locJ. locJ \<notin> set (delayed_location_successors spds))
          @ wait_events (length (location_successors spds)))"
    by (intro releases_follow_sends_append releases_follow_send_events
        releases_follow_receive_events releases_follow_wait_events)
  have step: "\<forall>(s::'a beta_state) locJ deplocI s'.
       send_to_successor tag_index locJ deplocI s = Inr s' \<longrightarrow>
         multi_face_indices s' ! deplocI
         = SerializeCellInfo (deplocI_cell_views (self s) ! deplocI)
             (multi_face_indices s ! deplocI)
             (deplocI_face_dof_count (self s) ! deplocI)
       \<and> deplocI_cell_views (self s') ! deplocI = []
       \<and> (\<forall>j. j \<noteq> deplocI \<longrightarrow>
             deplocI_cell_views (self s') ! j = deplocI_cell_views (self s) ! j)"
    by (auto simp: send_to_successor_def sent_to_successor_def split: if_splits)
  show ?thesis
    by (intro exI conjI, rule run) (simp_all add: clear_unnecessary_data_def pairs step)
qed

theorem C9_views_released_witness:
  "\<exists>fluds' calls.
     InitializeBetaElements (\<lambda>cell_g_index. cell_g_index = 0)
       (\<lambda>spds cell_g_index fl. fl\<lparr>prelocI_cell_views := [[(cell_g_index, [])]]\<rparr>)
       (\<lambda>prelocI. [6, 1, - 4, 7, 1]) (\<lambda>prelocI. [5, 0]) example_spds 0 example_fluds
     = Inr (fluds', calls)
   \<and> deplocI_cell_views fluds' = [] \<and> prelocI_cell_views fluds' = []
   \<and> delayed_prelocI_cell_views fluds' = []
   \<and> releases_follow_sends calls"
  using C9_views_released [OF example_run_defined, of "\<lambda>cell_g_index. cell_g_index = 0"
      "\<lambda>spds cell_g_index fl. fl\<lparr>prelocI_cell_views := [[(cell_g_index, [])]]\<rparr>" 0]
  by blast

section \<open>Proofs: the sweep buffer\<close>

lemma test_requests_sent:
  "snd (test_requests completed requests) \<longleftrightarrow>
     (\<forall>request\<in>set requests.
        case request of MPI_REQUEST_NULL \<Rightarrow> True | Pending h \<Rightarrow> completed h)"
  by (induction requests) (auto simp: MPI_Test_def split: MPI_Request.splits)

lemma test_all_requests_sent:
  "snd (test_all_requests completed requests) \<longleftrightarrow> all_sent completed requests"
  by (induction requests) (auto simp: all_sent_def test_requests_sent)

lemma ClearDownstreamBuffers_pending:
  assumes "\<not> done_sending sb" and "\<not> all_sent completed (deplocI_message_request sb)"
  shows "ClearDownstreamBuffers ClearSendPsi completed sb
         = sb\<lparr>deplocI_message_request :=
                fst (test_all_requests completed (deplocI_message_request sb))\<rparr>"
  using assms by (simp add: ClearDownstreamBuffers_def test_all_requests_sent)

lemma ClearDownstreamBuffers_sent:
  assumes "\<not> done_sending sb" and "all_sent completed (deplocI_message_request sb)"
  shows "ClearDownstreamBuffers ClearSendPsi completed sb
         = sb\<lparr>done_sending := True,
              deplocI_message_request :=
                fst (test_all_requests completed (deplocI_message_request sb)),
              the_fluds := ClearSendPsi (the_fluds sb)\<rparr>"
  using assms by (simp add: ClearDownstreamBuffers_def test_all_requests_sent)

lemma ClearDownstreamBuffers_done:
  "done_sending sb \<Longrightarrow> ClearDownstreamBuffers ClearSendPsi completed sb = sb"
  by (simp add: ClearDownstreamBuffers_def)

lemma poll_snoc:
  "poll ClearSendPsi (calls @ [completed]) sb
   = ClearDownstreamBuffers ClearSendPsi completed (poll ClearSendPsi calls sb)"
  by (simp add: poll_def)

lemma poll_append:
  "poll ClearSendPsi (calls @ more_calls) sb
   = poll ClearSendPsi more_calls (poll ClearSendPsi calls sb)"
  by (simp add: poll_def)

lemma poll_done:
  "done_sending sb \<Longrightarrow> poll ClearSendPsi calls sb = sb"
  by (induction calls) (simp_all add: poll_def ClearDownstreamBuffers_done)

lemma poll_pending:
  assumes "\<not> done_sending sb"
    and "\<forall>j<length calls.
           \<not> all_sent (calls ! j)
               (deplocI_message_request (poll ClearSendPsi (take j calls) sb))"
  shows "poll ClearSendPsi calls sb
         = sb\<lparr>deplocI_message_request :=
                deplocI_message_request (poll ClearSendPsi calls sb)\<rparr>"
  using assms(2)
proof (induction calls rule: rev_induct)
  case Nil
  show ?case by (simp add: poll_def)
next
  case (snoc completed calls)
  define mid where "mid = poll ClearSendPsi calls sb"
  define r where "r = deplocI_message_request mid"
  define r' where "r' = fst (test_all_requests completed r)"
  have "\<forall>j<length calls.
          \<not> all_sent (calls ! j) (deplocI_message_request (poll ClearSendPsi (take j calls) sb))"
  proof (intro allI impI)
    fix j assume j: "j < length calls"
    with snoc.prems have "\<not> all_sent ((calls @ [completed]) ! j)
        (deplocI_message_request (poll ClearSendPsi (take j (calls @ [completed])) sb))"
      by simp
    with j show "\<not> all_sent (calls ! j)
        (deplocI_message_request (poll ClearSendPsi (take j calls) sb))"
      by (simp add: nth_append)
  qed
  then have eq: "mid = sb\<lparr>deplocI_message_request := r\<rparr>"
    unfolding mid_def r_def by (rule snoc.IH)
  then have nd: "\<not> done_sending mid"
    using assms(1) by simp
  from snoc.prems have "\<not> all_sent completed (deplocI_message_request mid)"
    by (auto simp: mid_def dest: spec [of _ "length calls"])
  from ClearDownstreamBuffers_pending [OF nd this]
  have "poll ClearSendPsi (calls @ [completed]) sb = mid\<lparr>deplocI_message_request := r'\<rparr>"
    by (simp add: poll_snoc mid_def r'_def r_def)
  then have "poll ClearSendPsi (calls @ [completed]) sb = sb\<lparr>deplocI_message_request := r'\<rparr>"
    by (simp add: eq)
  then show ?case by simp
qed

lemma poll_prefix_pending:
  assumes "\<not> done_sending sb"
    and "\<forall>j<length calls.
           \<not> all_sent (calls ! j)
               (deplocI_message_request (poll ClearSendPsi (take j calls) sb))"
    and "n \<le> length calls"
  shows "poll ClearSendPsi (take n calls) sb
         = sb\<lparr>deplocI_message_request :=
                deplocI_message_request (poll ClearSendPsi (take n calls) sb)\<rparr>"
proof (rule poll_pending [OF assms(1)], intro allI impI)
  fix j assume "j < length (take n calls)"
  then have j: "j < n" "j < length calls" using assms(3) by simp_all
  then have "take j (take n calls) = take j calls" and "take n calls ! j = calls ! j"
    by (simp_all add: min_def)
  with assms(2) j show "\<not> all_sent (take n calls ! j)
      (deplocI_message_request (poll ClearSendPsi (take j (take n calls)) sb))"
    by simp
qed

text \<open>
  C3. A sequence of calls on a sweep buffer that is not done sending: the calls \<open>before\<close>
  each find a pending send that is not completed, the call \<open>completed\<close> is the first that
  finds every pending send completed, the calls \<open>after\<close> follow it. After any number of
  the calls \<open>before\<close>, \<open>done_sending\<close> is false and nothing but the request handles has
  changed, so that \<open>ClearSendPsi\<close> has not run; the call \<open>completed\<close> sets \<open>done_sending\<close>
  and runs \<open>ClearSendPsi\<close> once on the FLUDS object; the calls \<open>after\<close> change nothing.
\<close>

theorem C3_poll_until_sent:
  assumes "\<not> done_sending sb"
    and "\<forall>j<length before.
           \<not> all_sent (before ! j)
               (deplocI_message_request (poll ClearSendPsi (take j before) sb))"
    and "all_sent completed (deplocI_message_request (poll ClearSendPsi before sb))"
  shows "(\<forall>n\<le>length before.
            \<not> DoneSending (poll ClearSendPsi (take n before) sb)
            \<and> the_fluds (poll ClearSendPsi (take n before) sb) = the_fluds sb
            \<and> poll ClearSendPsi (take n before) sb
              = sb\<lparr>deplocI_message_request :=
                     deplocI_message_request (poll ClearSendPsi (take n before) sb)\<rparr>)
       \<and> DoneSending (poll ClearSendPsi (before @ [completed]) sb)
       \<and> the_fluds (poll ClearSendPsi (before @ [completed]) sb) = ClearSendPsi (the_fluds sb)
       \<and> poll ClearSendPsi (before @ [completed] @ after) sb
         = poll ClearSendPsi (before @ [completed]) sb"
proof (intro conjI allI impI)
  fix n assume n: "n \<le> length before"
  define r where "r = deplocI_message_request (poll ClearSendPsi (take n before) sb)"
  have eq: "poll ClearSendPsi (take n before) sb = sb\<lparr>deplocI_message_request := r\<rparr>"
    unfolding r_def by (rule poll_prefix_pending [OF assms(1,2) n])
  show "\<not> DoneSending (poll ClearSendPsi (take n before) sb)"
    using assms(1) by (simp add: eq DoneSending_def)
  show "the_fluds (poll ClearSendPsi (take n before) sb) = the_fluds sb"
    by (simp add: eq)
  show "poll ClearSendPsi (take n before) sb
        = sb\<lparr>deplocI_message_request :=
               deplocI_message_request (poll ClearSendPsi (take n before) sb)\<rparr>"
    by (rule poll_prefix_pending [OF assms(1,2) n])
next
  define mid where "mid = poll ClearSendPsi before sb"
  define r where "r = deplocI_message_request mid"
  have eq: "mid = sb\<lparr>deplocI_message_request := r\<rparr>"
    unfolding mid_def r_def by (rule poll_pending [OF assms(1,2)])
  then have nd: "\<not> done_sending mid" using assms(1) by simp
  have sent: "all_sent completed (deplocI_message_request mid)"
    using assms(3) by (simp add: mid_def)
  have last: "poll ClearSendPsi (before @ [completed]) sb
      = mid\<lparr>done_sending := True,
            deplocI_message_request :=
              fst (test_all_requests completed (deplocI_message_request mid)),
            the_fluds := ClearSendPsi (the_fluds mid)\<rparr>"
    using ClearDownstreamBuffers_sent [OF nd sent] by (simp add: poll_snoc mid_def)
  show finished: "DoneSending (poll ClearSendPsi (before @ [completed]) sb)"
    by (simp add: last DoneSending_def)
  have "the_fluds mid = the_fluds sb" by (simp add: eq)
  then show "the_fluds (poll ClearSendPsi (before @ [completed]) sb)
             = ClearSendPsi (the_fluds sb)"
    by (simp add: last)
  have "poll ClearSendPsi ((before @ [completed]) @ after) sb
        = poll ClearSendPsi (before @ [completed]) sb"
    using finished unfolding poll_append [of _ "before @ [completed]"] DoneSending_def
    by (rule poll_done)
  then show "poll ClearSendPsi (before @ [completed] @ after) sb
             = poll ClearSendPsi (before @ [completed]) sb"
    by simp
qed

theorem C3_poll_until_sent_witness:
  "\<not> DoneSending (poll Suc (take 2 [\<lambda>h. False, \<lambda>h. h = 0]) example_buffer)
   \<and> the_fluds (poll Suc (take 2 [\<lambda>h. False, \<lambda>h. h = 0]) example_buffer) = 0
   \<and> DoneSending (poll Suc ([\<lambda>h. False, \<lambda>h. h = 0] @ [\<lambda>h. True]) example_buffer)
   \<and> the_fluds (poll Suc ([\<lambda>h. False, \<lambda>h. h = 0] @ [\<lambda>h. True]) example_buffer) = Suc 0
   \<and> poll Suc ([\<lambda>h. False, \<lambda>h. h = 0] @ [\<lambda>h. True] @ [\<lambda>h. False, \<lambda>h. True]) example_buffer
     = poll Suc ([\<lambda>h. False, \<lambda>h. h = 0] @ [\<lambda>h. True]) example_buffer"
proof -
  have a: "\<not> done_sending example_buffer" by (simp add: example_buffer_def)
  have b: "\<forall>j<length [\<lambda>h::nat. False, \<lambda>h. h = 0].
             \<not> all_sent ([\<lambda>h::nat. False, \<lambda>h. h = 0] ! j)
                 (deplocI_message_request
                    (poll Suc (take j [\<lambda>h::nat. False, \<lambda>h. h = 0]) example_buffer))"
    by (simp add: All_less_Suc example_buffer_def all_sent_def poll_def
        ClearDownstreamBuffers_def MPI_Test_def)
  have c: "all_sent (\<lambda>h. True)
             (deplocI_message_request (poll Suc [\<lambda>h::nat. False, \<lambda>h. h = 0] example_buffer))"
    by (simp add: all_sent_def split: MPI_Request.splits)
  from C3_poll_until_sent [OF a b c, of "[\<lambda>h. False, \<lambda>h. True]"]
  show ?thesis by (auto simp: example_buffer_def)
qed

text \<open>
  C7. \<open>Reset\<close> sets the three flags to false and every entry of every flag array of
  received messages to false; the flag arrays keep their number and their lengths; the
  message structure (\<open>max_num_mess\<close>, the eager limit, the numbers of groups and angles,
  the communicator set) is as before; and putting the old values of the five members back
  gives the old sweep buffer, so no other member has changed.
\<close>

theorem C7_Reset_clears_flags_only:
  "\<not> done_sending (Reset sb) \<and> \<not> data_initialized (Reset sb)
   \<and> \<not> upstream_data_initialized (Reset sb)
   \<and> (\<forall>message_flags\<in>set (prelocI_message_received (Reset sb)).
         \<forall>flag\<in>set message_flags. \<not> flag)
   \<and> (\<forall>message_flags\<in>set (delayed_prelocI_message_received (Reset sb)).
         \<forall>flag\<in>set message_flags. \<not> flag)
   \<and> map length (prelocI_message_received (Reset sb))
     = map length (prelocI_message_received sb)
   \<and> map length (delayed_prelocI_message_received (Reset sb))
     = map length (delayed_prelocI_message_received sb)
   \<and> max_num_mess (Reset sb) = max_num_mess sb
   \<and> EAGER_LIMIT (Reset sb) = EAGER_LIMIT sb
   \<and> num_groups (Reset sb) = num_groups sb
   \<and> num_angles (Reset sb) = num_angles sb
   \<and> comm_set (Reset sb) = comm_set sb
   \<and> (Reset sb)\<lparr>done_sending := done_sending sb,
                 data_initialized := data_initialized sb,
                 upstream_data_initialized := upstream_data_initialized sb,
                 prelocI_message_received := prelocI_message_received sb,
                 delayed_prelocI_message_received := delayed_prelocI_message_received sb\<rparr>
     = sb"
  by (auto simp: Reset_def comp_def)

theorem C7_Reset_clears_flags_only_witness:
  "\<not> done_sending (Reset example_buffer)
   \<and> prelocI_message_received (Reset example_buffer) = [[False, False], [False]]
   \<and> delayed_prelocI_message_received (Reset example_buffer) = [[False]]
   \<and> max_num_mess (Reset example_buffer) = 3
   \<and> deplocI_message_request (Reset example_buffer) = [[Pending 0, Pending 1], [Pending 2]]"
  using C7_Reset_clears_flags_only [of example_buffer]
  by (simp add: example_buffer_def Reset_def)

end
